theory Spec2Isabelle
  imports Complex_Main
begin

unbundle bit_operations_syntax

section \<open>JavaScript values and arrays\<close>

text \<open>
  The numbers the tesselator moves around are JavaScript numbers. A value is a finite
  number, one of the two infinities, not-a-number, or \<open>undefined\<close> (what reading past
  the end of an array gives). The two zeros are one value.
\<close>

datatype jsval = Number real | PosInfinity | NegInfinity | NaN | Undefined

text \<open>\<open>xs[k]\<close> on a JavaScript array: \<open>undefined\<close> out of range.\<close>

definition js_get :: "jsval list \<Rightarrow> nat \<Rightarrow> jsval" where
  "js_get xs k = (if k < length xs then xs ! k else Undefined)"

text \<open>
  \<open>xs[k] = v\<close> on a plain JavaScript array: a write past the end extends the array,
  the slots in between are holes (\<open>hole\<close>).
\<close>

definition array_set :: "'a \<Rightarrow> 'a list \<Rightarrow> nat \<Rightarrow> 'a \<Rightarrow> 'a list" where
  "array_set hole xs k v =
     (if k < length xs then xs[k := v] else xs @ replicate (k - length xs) hole @ [v])"

text \<open>\<open>a || b\<close> and the global \<open>isNaN\<close> on these values.\<close>

definition falsy :: "jsval \<Rightarrow> bool" where
  "falsy v =
     (case v of Number r \<Rightarrow> r = 0 | PosInfinity \<Rightarrow> False | NegInfinity \<Rightarrow> False
      | NaN \<Rightarrow> True | Undefined \<Rightarrow> True)"

definition js_or :: "jsval \<Rightarrow> jsval \<Rightarrow> jsval" where
  "js_or a b = (if falsy a then b else a)"

definition isNaN :: "jsval \<Rightarrow> bool" where
  "isNaN v =
     (case v of Number r \<Rightarrow> False | PosInfinity \<Rightarrow> False | NegInfinity \<Rightarrow> False
      | NaN \<Rightarrow> True | Undefined \<Rightarrow> True)"

section \<open>The polygon collaborator\<close>

type_synonym vertex = "jsval list"
type_synonym ring = "vertex list"
type_synonym polygon = "ring list"

datatype raw_polygon = SimpleRing ring | RingsWithHoles "ring list"

text \<open>
  Modelled from the spec: \<open>Polygon.normalize\<close> of \<open>./polygon\<close>, which is not among the
  sources. The spec: it "normalizes raw polygon input into a canonical ring-set
  representation"; the input is "a bare ring, or rings-with-holes".
\<close>

fun Polygon_normalize :: "raw_polygon \<Rightarrow> polygon" where
  "Polygon_normalize (SimpleRing r) = [r]"
| "Polygon_normalize (RingsWithHoles rs) = rs"

text \<open>
  Modelled from the spec: \<open>Polygon.getVertexCount\<close> of \<open>./polygon\<close>, which is not among
  the sources. The spec: a complex polygon is "one outer ring plus zero or more hole
  rings; holes ... contribute vertices to the global buffer".
\<close>

definition Polygon_getVertexCount :: "polygon \<Rightarrow> nat" where
  "Polygon_getVertexCount polygon = sum_list (map length polygon)"

text \<open>
  Modelled from the spec: \<open>Polygon.forEachVertex\<close> of \<open>./polygon\<close>, which is not among
  the sources. The spec: "for each ring in deterministic order (outer ring first, then
  holes), for each vertex in ring order", and the collaborator's contract
  "forEachVertex(p, visitor(vertex, vertexIndexWithinPolygon))": the visitor receives
  the vertex and the index of the vertex within the polygon, which starts at 0 with the
  polygon and runs on through its rings. The result is the sequence of the visitor's
  calls.
\<close>

definition Polygon_forEachVertex :: "polygon \<Rightarrow> (vertex \<times> nat) list" where
  "Polygon_forEachVertex polygon = zip (concat polygon) [0..<length (concat polygon)]"

text \<open>
  \<open>Polygon.getTriangleCount\<close> and \<open>Polygon.getSurfaceIndices\<close> belong to the
  triangulation, which the tesselator treats as a black box: they are parameters
  (\<open>gtc\<close>, \<open>gsi\<close>) of everything below that calls them.
\<close>

section \<open>Counting and offsets\<close>

text \<open>\<open>polygons.reduce((points, polygon) => points + Polygon.getVertexCount(polygon), 0)\<close>\<close>

definition getPointCount :: "polygon list \<Rightarrow> nat" where
  "getPointCount polygons =
     fold (\<lambda>polygon points. points + Polygon_getVertexCount polygon) polygons 0"

definition getTriangleCount :: "(polygon \<Rightarrow> nat) \<Rightarrow> polygon list \<Rightarrow> nat" where
  "getTriangleCount gtc polygons =
     fold (\<lambda>polygon triangles. triangles + gtc polygon) polygons 0"

text \<open>
  \<open>new Array(n + 1)\<close> is an array of \<open>n + 1\<close> empty slots: a slot is \<open>None\<close> until it
  is assigned.
\<close>

definition getPolygonOffsets :: "polygon list \<Rightarrow> nat option list" where
  "getPolygonOffsets polygons =
     (let offsets = replicate (length polygons + 1) None;
          offsets = array_set None offsets 0 (Some 0);
          offset = 0
      in fst (fold (\<lambda>(i, polygon) (offsets, offset).
                let offset = offset + Polygon_getVertexCount polygon
                in (array_set None offsets (i + 1) (Some offset), offset))
              (enumerate 0 polygons) (offsets, offset)))"

section \<open>The index buffer\<close>

text \<open>
  \<open>IndexType\<close> is the constructor of the index buffer, an unsigned integer typed array;
  the source names \<open>Uint16Array\<close> and \<open>Uint32Array\<close> (the default of
  \<open>calculateIndices\<close>).
\<close>

datatype index_type = Uint8Array | Uint16Array | Uint32Array

fun index_bits :: "index_type \<Rightarrow> nat" where
  "index_bits Uint8Array = 8"
| "index_bits Uint16Array = 16"
| "index_bits Uint32Array = 32"

text \<open>
  \<open>attribute[i] = v\<close> on an unsigned integer typed array: a write past the end is
  ignored, the value is reduced modulo \<open>2 ^ bits\<close>, and not-a-number (here: the sum
  with an unassigned offset) is stored as 0.
\<close>

definition index_set :: "index_type \<Rightarrow> nat list \<Rightarrow> nat \<Rightarrow> nat option \<Rightarrow> nat list" where
  "index_set t attribute i v =
     (if i < length attribute
      then attribute[i := (case v of None \<Rightarrow> 0 | Some n \<Rightarrow> n mod 2 ^ index_bits t)]
      else attribute)"

definition offsets_get :: "nat option list \<Rightarrow> nat \<Rightarrow> nat option" where
  "offsets_get offsets k = (if k < length offsets then offsets ! k else None)"

definition calculateIndices ::
  "(polygon \<Rightarrow> nat) \<Rightarrow> (polygon \<Rightarrow> nat list) \<Rightarrow> polygon list \<Rightarrow> index_type option \<Rightarrow> nat list" where
  "calculateIndices gtc gsi polygons IndexType =
     (let IndexType = (case IndexType of None \<Rightarrow> Uint32Array | Some t \<Rightarrow> t);
          indexCount = 3 * getTriangleCount gtc polygons;
          offsets = getPolygonOffsets polygons;
          attribute = replicate indexCount 0
      in fst (fold (\<lambda>(polygonIndex, polygon) (attribute, i).
                fold (\<lambda>index (attribute, i).
                        (index_set IndexType attribute i
                           (map_option (\<lambda>offset. index + offset) (offsets_get offsets polygonIndex)),
                         i + 1))
                     (gsi polygon) (attribute, i))
              (enumerate 0 polygons) (attribute, 0)))"

section \<open>Typed arrays\<close>

text \<open>
  The attribute buffers are \<open>Float32Array\<close>s and \<open>Uint8ClampedArray\<close>s. A typed
  array has a fixed length; a store converts the value to the element type, and a store
  past the end is ignored.

  A \<open>Float32Array\<close> store rounds the number to single precision (IEEE 754 binary32,
  to nearest, ties to even): a number of binary exponent \<open>e\<close> is rounded to a multiple of
  \<open>2 ^ (e - 23)\<close>, as it has 24 significant bits; the exponent is at least \<open>- 126\<close>,
  that of the smallest normal number, below which the spacing stays \<open>2 ^ (- 149)\<close>, and
  at most 127; what rounds to \<open>2 ^ 128\<close> or beyond is stored as an infinity;
  \<open>undefined\<close> is stored as not-a-number. A \<open>Uint8ClampedArray\<close> store clamps to
  \<open>[0, 255]\<close> and rounds to the nearest integer, ties to even; what is not a number is
  stored as 0.

  \<open>float_exponent n e a\<close> climbs from \<open>e\<close>, by at most \<open>n\<close>, to the greatest exponent
  whose power of two is at most \<open>a\<close>.
\<close>

datatype array_kind = Float32 | Uint8Clamped

record typed_array =
  kind :: array_kind
  cells :: "jsval list"

definition round_half_even :: "real \<Rightarrow> int" where
  "round_half_even r =
     (let f = \<lfloor>r\<rfloor>
      in if r - of_int f < 1 / 2 then f
         else if 1 / 2 < r - of_int f then f + 1
         else if even f then f else f + 1)"

fun float_exponent :: "nat \<Rightarrow> int \<Rightarrow> real \<Rightarrow> int" where
  "float_exponent 0 e a = e"
| "float_exponent (Suc n) e a = (if 2 powi (e + 1) \<le> a then float_exponent n (e + 1) a else e)"

definition fround :: "real \<Rightarrow> jsval" where
  "fround r =
     (let e = float_exponent 253 (- 126) \<bar>r\<bar>;
          ulp = 2 powi (e - 23);
          v = of_int (round_half_even (r / ulp)) * ulp
      in if 2 ^ 128 \<le> \<bar>v\<bar> then (if 0 < r then PosInfinity else NegInfinity)
         else Number v)"

definition toFloat32 :: "jsval \<Rightarrow> jsval" where
  "toFloat32 v =
     (case v of Number r \<Rightarrow> fround r | PosInfinity \<Rightarrow> PosInfinity | NegInfinity \<Rightarrow> NegInfinity
      | NaN \<Rightarrow> NaN | Undefined \<Rightarrow> NaN)"

definition toUint8Clamped :: "jsval \<Rightarrow> jsval" where
  "toUint8Clamped v =
     (case v of
        Number r \<Rightarrow>
          Number (if r \<le> 0 then 0 else if 255 \<le> r then 255 else of_int (round_half_even r))
      | PosInfinity \<Rightarrow> Number 255
      | NegInfinity \<Rightarrow> Number 0
      | NaN \<Rightarrow> Number 0
      | Undefined \<Rightarrow> Number 0)"

definition convert :: "array_kind \<Rightarrow> jsval \<Rightarrow> jsval" where
  "convert k v = (case k of Float32 \<Rightarrow> toFloat32 v | Uint8Clamped \<Rightarrow> toUint8Clamped v)"

definition ta_new :: "array_kind \<Rightarrow> nat \<Rightarrow> typed_array" where
  "ta_new k n = \<lparr>kind = k, cells = replicate n (Number 0)\<rparr>"

definition ta_set :: "typed_array \<Rightarrow> nat \<Rightarrow> jsval \<Rightarrow> typed_array" where
  "ta_set t i v =
     (if i < length (cells t) then t\<lparr>cells := (cells t)[i := convert (kind t) v]\<rparr> else t)"

text \<open>
  Modelled from the spec: \<open>fillArray\<close> of \<open>@deck.gl/core\<close>, which is not among the
  sources. The spec: the value is copied "into every vertex slot belonging to that
  polygon"; "the triple is replicated across every vertex of that polygon". So
  \<open>fillArray({target, source, start, count})\<close> stores \<open>count\<close> copies of \<open>source\<close> in
  \<open>target\<close>, from index \<open>start\<close> on.
\<close>

definition fillArray :: "typed_array \<Rightarrow> jsval list \<Rightarrow> nat \<Rightarrow> nat \<Rightarrow> typed_array" where
  "fillArray target source start count =
     fold (\<lambda>(k, v) target. ta_set target (start + k) v)
          (enumerate 0 (concat (replicate count source))) target"

section \<open>Picking colors\<close>

text \<open>
  The bitwise operators of JavaScript work on the 32-bit signed integer of their left
  operand (\<open>ToInt32\<close>); \<open>>>\<close> is the arithmetic shift.
\<close>

definition ToInt32 :: "int \<Rightarrow> int" where
  "ToInt32 n = (n + 2 ^ 31) mod 2 ^ 32 - 2 ^ 31"

definition getPickingColor :: "nat \<Rightarrow> jsval list" where
  "getPickingColor index =
     (let index = int index + 1
      in map (\<lambda>n. Number (of_int n))
           [ToInt32 index AND 255,
            drop_bit 8 (ToInt32 index) AND 255,
            drop_bit 16 (ToInt32 index) AND 255])"

definition calculatePickingColors :: "polygon list \<Rightarrow> nat \<Rightarrow> typed_array" where
  "calculatePickingColors polygons pointCount =
     (let attribute = ta_new Uint8Clamped (pointCount * 3)
      in fst (fold (\<lambda>(polygonIndex, complexPolygon) (attribute, i).
                let color = getPickingColor polygonIndex;
                    vertexCount = Polygon_getVertexCount complexPolygon
                in (fillArray attribute color i vertexCount, i + length color * vertexCount))
              (enumerate 0 polygons) (attribute, 0)))"

section \<open>Elevations and colors\<close>

definition updateElevations ::
  "typed_array option \<Rightarrow> polygon list \<Rightarrow> nat \<Rightarrow> (nat \<Rightarrow> jsval) \<Rightarrow> typed_array" where
  "updateElevations cache polygons pointCount getElevation =
     (let elevations = (case cache of Some c \<Rightarrow> c | None \<Rightarrow> ta_new Float32 pointCount)
      in fst (fold (\<lambda>(polygonIndex, complexPolygon) (elevations, i).
                let height = getElevation polygonIndex;
                    vertexCount = Polygon_getVertexCount complexPolygon
                in (fillArray elevations [height] i vertexCount, i + vertexCount))
              (enumerate 0 polygons) (elevations, 0)))"

text \<open>
  The color accessor returns a JavaScript array, that is, a reference: the arrays the
  caller owns live in a store, and the accessor gives the address of one of them. Two
  polygons may be given the same array. \<open>color[3] = 255\<close> is a store into the caller's
  array.
\<close>

type_synonym addr = nat
type_synonym store = "addr \<Rightarrow> jsval list"

definition updateColors ::
  "typed_array option \<Rightarrow> polygon list \<Rightarrow> nat \<Rightarrow> (nat \<Rightarrow> addr) \<Rightarrow> store \<Rightarrow> typed_array \<times> store" where
  "updateColors cache polygons pointCount getColor store =
     (let colors = (case cache of Some c \<Rightarrow> c | None \<Rightarrow> ta_new Uint8Clamped (pointCount * 4));
          (colors, i, store) =
            fold (\<lambda>(polygonIndex, complexPolygon) (colors, i, store).
                    let color = getColor polygonIndex;
                        store = (if isNaN (js_get (store color) 3)
                                 then store(color := array_set Undefined (store color) 3 (Number 255))
                                 else store);
                        vertexCount = Polygon_getVertexCount complexPolygon
                    in (fillArray colors (store color) i vertexCount,
                        i + length (store color) * vertexCount,
                        store))
                 (enumerate 0 polygons) (colors, 0, store)
      in (colors, store))"

section \<open>Positions\<close>

text \<open>
  The buffers that \<open>updatePositions\<close> receives. The two low-part buffers exist once
  double-precision emulation has been asked for; the class only passes \<open>fp64\<close> together
  with both of them, so a store into an absent one does not arise.
\<close>

record position_cache =
  cache_positions :: typed_array
  cache_positions64xyLow :: "typed_array option"
  cache_nextPositions :: typed_array
  cache_nextPositions64xyLow :: "typed_array option"

text \<open>The saved first vertex: \<open>{x, y, z, xLow, yLow}\<close>.\<close>

type_synonym start_vertex = "jsval \<times> jsval \<times> jsval \<times> jsval \<times> jsval"

definition pushStartVertex ::
  "bool \<Rightarrow> jsval \<Rightarrow> jsval \<Rightarrow> jsval \<Rightarrow> jsval \<Rightarrow> jsval \<Rightarrow> start_vertex option \<Rightarrow> start_vertex option" where
  "pushStartVertex extruded x y z xLow yLow startVertex =
     (if extruded then Some (x, y, z, xLow, yLow) else startVertex)"

definition popStartVertex ::
  "bool \<Rightarrow> typed_array \<times> typed_array option \<times> nat \<times> start_vertex option
        \<Rightarrow> typed_array \<times> typed_array option \<times> nat \<times> start_vertex option" where
  "popStartVertex fp64 = (\<lambda>(nextPositions, nextPositions64xyLow, nextI, startVertex).
     (case startVertex of
        Some (x, y, z, xLow, yLow) \<Rightarrow>
          (ta_set (ta_set (ta_set nextPositions (nextI * 3) x) (nextI * 3 + 1) y) (nextI * 3 + 2) z,
           (if fp64
            then map_option (\<lambda>a. ta_set (ta_set a (nextI * 2) xLow) (nextI * 2 + 1) yLow)
                   nextPositions64xyLow
            else nextPositions64xyLow),
           nextI + 1,
           None)
      | None \<Rightarrow> (nextPositions, nextPositions64xyLow, nextI, None)))"

text \<open>
  The visitor of \<open>Polygon.forEachVertex\<close>, on the state of the traversal: the four
  buffers, \<open>i\<close>, \<open>nextI\<close> and \<open>startVertex\<close>. \<open>fp64LowPart\<close> of \<open>@deck.gl/core\<close> is
  not among the sources and is a parameter (\<open>lowPart\<close>).
\<close>

type_synonym positions_state =
  "typed_array \<times> typed_array option \<times> typed_array \<times> typed_array option \<times> nat \<times> nat \<times> start_vertex option"

definition visitVertex ::
  "(jsval \<Rightarrow> jsval) \<Rightarrow> bool \<Rightarrow> bool \<Rightarrow> vertex \<times> nat \<Rightarrow> positions_state \<Rightarrow> positions_state" where
  "visitVertex lowPart extruded fp64 = (\<lambda>(vertex, vertexIndex)
       (positions, positions64xyLow, nextPositions, nextPositions64xyLow, i, nextI, startVertex).
     let x = js_get vertex 0;
         y = js_get vertex 1;
         z = js_or (js_get vertex 2) (Number 0);
         xLow = (if fp64 then lowPart x else Undefined);
         yLow = (if fp64 then lowPart y else Undefined);
         positions = ta_set (ta_set (ta_set positions (i * 3) x) (i * 3 + 1) y) (i * 3 + 2) z;
         positions64xyLow =
           (if fp64
            then map_option (\<lambda>a. ta_set (ta_set a (i * 2) xLow) (i * 2 + 1) yLow) positions64xyLow
            else positions64xyLow);
         i = i + 1;
         (nextPositions, nextPositions64xyLow, nextI) =
           (if extruded \<and> 0 < vertexIndex
            then (ta_set (ta_set (ta_set nextPositions (nextI * 3) x) (nextI * 3 + 1) y) (nextI * 3 + 2) z,
                  (if fp64
                   then map_option (\<lambda>a. ta_set (ta_set a (nextI * 2) xLow) (nextI * 2 + 1) yLow)
                          nextPositions64xyLow
                   else nextPositions64xyLow),
                  nextI + 1)
            else (nextPositions, nextPositions64xyLow, nextI));
         (nextPositions, nextPositions64xyLow, nextI, startVertex) =
           (if vertexIndex = 0
            then (let (nextPositions, nextPositions64xyLow, nextI, startVertex) =
                        popStartVertex fp64 (nextPositions, nextPositions64xyLow, nextI, startVertex)
                  in (nextPositions, nextPositions64xyLow, nextI,
                      pushStartVertex extruded x y z xLow yLow startVertex))
            else (nextPositions, nextPositions64xyLow, nextI, startVertex))
     in (positions, positions64xyLow, nextPositions, nextPositions64xyLow, i, nextI, startVertex))"

definition updatePositions ::
  "(jsval \<Rightarrow> jsval) \<Rightarrow> position_cache \<Rightarrow> polygon list \<Rightarrow> bool \<Rightarrow> bool \<Rightarrow> position_cache" where
  "updatePositions lowPart cache polygons extruded fp64 =
     (let (positions, positions64xyLow, nextPositions, nextPositions64xyLow, i, nextI, startVertex) =
            fold (\<lambda>(polygonIndex, polygon).
                    fold (visitVertex lowPart extruded fp64) (Polygon_forEachVertex polygon))
                 (enumerate 0 polygons)
                 (cache_positions cache, cache_positions64xyLow cache, cache_nextPositions cache,
                  cache_nextPositions64xyLow cache, 0, 0, None);
          (nextPositions, nextPositions64xyLow, nextI, startVertex) =
            popStartVertex fp64 (nextPositions, nextPositions64xyLow, nextI, startVertex)
      in \<lparr>cache_positions = positions, cache_positions64xyLow = positions64xyLow,
          cache_nextPositions = nextPositions, cache_nextPositions64xyLow = nextPositions64xyLow\<rparr>)"

section \<open>The tesselator\<close>

datatype error = VertexCountExceedsLimit

text \<open>
  The state of a \<open>PolygonTesselator\<close>: the fields of \<open>this\<close>. \<open>this.attributes\<close> is
  the object that maps an attribute's name to its buffer. \<open>this.IndexType\<close> is \<open>None\<close>
  when the caller gave none.
\<close>

record tesselator =
  this_polygons :: "polygon list"
  this_pointCount :: nat
  this_IndexType :: "index_type option"
  this_attributes :: "string \<Rightarrow> typed_array option"

text \<open>
  The constructor. The \<open>throw\<close> is the result \<open>Inl\<close>; it comes before the picking
  colors are built.
\<close>

definition PolygonTesselator :: "raw_polygon list \<Rightarrow> index_type option \<Rightarrow> error + tesselator" where
  "PolygonTesselator raw IndexType =
     (let polygons = map Polygon_normalize raw;
          pointCount = getPointCount polygons
      in if IndexType = Some Uint16Array \<and> 65535 < pointCount
         then Inl VertexCountExceedsLimit
         else Inr \<lparr>this_polygons = polygons, this_pointCount = pointCount,
                   this_IndexType = IndexType,
                   this_attributes = Map.empty(''pickingColors'' \<mapsto> calculatePickingColors polygons pointCount)\<rparr>)"

text \<open>
  The method \<open>updatePositions({fp64, extruded})\<close>: a buffer that is not in
  \<open>attributes\<close> yet is allocated, the function above fills the buffers, and
  \<open>attributes\<close> holds them afterwards.
\<close>

definition tesselator_updatePositions ::
  "(jsval \<Rightarrow> jsval) \<Rightarrow> bool \<Rightarrow> bool \<Rightarrow> tesselator \<Rightarrow> tesselator" where
  "tesselator_updatePositions lowPart fp64 extruded t =
     (let attributes = this_attributes t;
          pointCount = this_pointCount t;
          positions =
            (case attributes ''positions'' of Some b \<Rightarrow> b
             | None \<Rightarrow> ta_new Float32 (pointCount * 3));
          nextPositions =
            (case attributes ''nextPositions'' of Some b \<Rightarrow> b
             | None \<Rightarrow> ta_new Float32 (pointCount * 3));
          positions64xyLow =
            (if fp64
             then Some (case attributes ''positions64xyLow'' of Some b \<Rightarrow> b
                        | None \<Rightarrow> ta_new Float32 (pointCount * 2))
             else attributes ''positions64xyLow'');
          nextPositions64xyLow =
            (if fp64
             then Some (case attributes ''nextPositions64xyLow'' of Some b \<Rightarrow> b
                        | None \<Rightarrow> ta_new Float32 (pointCount * 2))
             else attributes ''nextPositions64xyLow'');
          cache = updatePositions lowPart
                    \<lparr>cache_positions = positions, cache_positions64xyLow = positions64xyLow,
                     cache_nextPositions = nextPositions,
                     cache_nextPositions64xyLow = nextPositions64xyLow\<rparr>
                    (this_polygons t) extruded fp64
      in t\<lparr>this_attributes :=
             attributes(''positions'' \<mapsto> cache_positions cache,
                        ''positions64xyLow'' := cache_positions64xyLow cache,
                        ''nextPositions'' \<mapsto> cache_nextPositions cache,
                        ''nextPositions64xyLow'' := cache_nextPositions64xyLow cache)\<rparr>)"

definition tesselator_indices ::
  "(polygon \<Rightarrow> nat) \<Rightarrow> (polygon \<Rightarrow> nat list) \<Rightarrow> tesselator \<Rightarrow> nat list" where
  "tesselator_indices gtc gsi t = calculateIndices gtc gsi (this_polygons t) (this_IndexType t)"

text \<open>
  \<open>elevations({key, getElevation})\<close> and \<open>colors({key, getColor})\<close>, with their
  defaults. \<open>DEFAULT_COLOR\<close> is the address of the module's array \<open>[0, 0, 0, 255]\<close>.
\<close>

definition DEFAULT_COLOR :: addr where
  "DEFAULT_COLOR = 0"

definition tesselator_elevations ::
  "string option \<Rightarrow> (nat \<Rightarrow> jsval) option \<Rightarrow> tesselator \<Rightarrow> typed_array \<times> tesselator" where
  "tesselator_elevations key getElevation t =
     (let key = (case key of Some k \<Rightarrow> k | None \<Rightarrow> ''elevations'');
          getElevation = (case getElevation of Some g \<Rightarrow> g | None \<Rightarrow> (\<lambda>x. Number 100));
          values = updateElevations (this_attributes t key) (this_polygons t) (this_pointCount t) getElevation
      in (values, t\<lparr>this_attributes := (this_attributes t)(key \<mapsto> values)\<rparr>))"

definition tesselator_colors ::
  "string option \<Rightarrow> (nat \<Rightarrow> addr) option \<Rightarrow> tesselator \<times> store \<Rightarrow> typed_array \<times> tesselator \<times> store" where
  "tesselator_colors key getColor = (\<lambda>(t, store).
     let key = (case key of Some k \<Rightarrow> k | None \<Rightarrow> ''colors'');
         getColor = (case getColor of Some g \<Rightarrow> g | None \<Rightarrow> (\<lambda>x. DEFAULT_COLOR));
         (values, store) = updateColors (this_attributes t key) (this_polygons t) (this_pointCount t) getColor store
     in (values, t\<lparr>this_attributes := (this_attributes t)(key \<mapsto> values)\<rparr>, store))"

text \<open>
  The methods, as calls on a tesselator and the caller's store. The getters
  (\<open>positions()\<close>, \<open>pickingColors()\<close>, ...) and \<open>indices()\<close> leave both as they are.
\<close>

datatype call =
    UpdatePositions bool bool
  | Indices
  | Positions
  | Positions64xyLow
  | NextPositions
  | NextPositions64xyLow
  | Elevations "string option" "(nat \<Rightarrow> jsval) option"
  | Colors "string option" "(nat \<Rightarrow> addr) option"
  | PickingColors

fun step :: "(jsval \<Rightarrow> jsval) \<Rightarrow> call \<Rightarrow> tesselator \<times> store \<Rightarrow> tesselator \<times> store" where
  "step lowPart (UpdatePositions fp64 extruded) (t, store) =
     (tesselator_updatePositions lowPart fp64 extruded t, store)"
| "step lowPart (Elevations key getElevation) (t, store) =
     (snd (tesselator_elevations key getElevation t), store)"
| "step lowPart (Colors key getColor) (t, store) = snd (tesselator_colors key getColor (t, store))"
| "step lowPart Indices (t, store) = (t, store)"
| "step lowPart Positions (t, store) = (t, store)"
| "step lowPart Positions64xyLow (t, store) = (t, store)"
| "step lowPart NextPositions (t, store) = (t, store)"
| "step lowPart NextPositions64xyLow (t, store) = (t, store)"
| "step lowPart PickingColors (t, store) = (t, store)"

definition run :: "(jsval \<Rightarrow> jsval) \<Rightarrow> call list \<Rightarrow> tesselator \<times> store \<Rightarrow> tesselator \<times> store" where
  "run lowPart calls s = fold (step lowPart) calls s"

section \<open>Notions used in the proofs\<close>

text \<open>
  \<open>write_seq att i ws\<close> is the array \<open>att\<close> after the values \<open>ws\<close> have been stored at
  \<open>i\<close>, \<open>i + 1\<close>, ... by stores that are ignored past the end.
\<close>

definition write_seq :: "'a list \<Rightarrow> nat \<Rightarrow> 'a list \<Rightarrow> 'a list" where
  "write_seq att i ws = take i att @ take (length att - i) ws @ drop (i + length ws) att"

text \<open>The same for a typed array, whose stores convert the values.\<close>

definition ta_write :: "typed_array \<Rightarrow> nat \<Rightarrow> jsval list \<Rightarrow> typed_array" where
  "ta_write t i ws = t\<lparr>cells := write_seq (cells t) i (map (convert (kind t)) ws)\<rparr>"

text \<open>
  What \<open>calculateIndices\<close> stores for the local index \<open>index\<close> of polygon \<open>k\<close>.
\<close>

definition stored_index :: "index_type option \<Rightarrow> polygon list \<Rightarrow> nat \<Rightarrow> nat \<Rightarrow> nat" where
  "stored_index IndexType polygons k index =
     (case map_option (\<lambda>offset. index + offset) (offsets_get (getPolygonOffsets polygons) k) of
        None \<Rightarrow> 0
      | Some n \<Rightarrow> n mod 2 ^ index_bits (case IndexType of None \<Rightarrow> Uint32Array | Some t \<Rightarrow> t))"

text \<open>
  What \<open>updateColors\<close> does to the array it got from the accessor, and the body of its
  loop.
\<close>

definition patch_alpha :: "jsval list \<Rightarrow> jsval list" where
  "patch_alpha color =
     (if isNaN (js_get color 3) then array_set Undefined color 3 (Number 255) else color)"

definition colors_step ::
  "(nat \<Rightarrow> addr) \<Rightarrow> nat \<times> polygon \<Rightarrow> typed_array \<times> nat \<times> store \<Rightarrow> typed_array \<times> nat \<times> store" where
  "colors_step getColor = (\<lambda>(polygonIndex, complexPolygon) (colors, i, store).
                    let color = getColor polygonIndex;
                        store = (if isNaN (js_get (store color) 3)
                                 then store(color := array_set Undefined (store color) 3 (Number 255))
                                 else store);
                        vertexCount = Polygon_getVertexCount complexPolygon
                    in (fillArray colors (store color) i vertexCount,
                        i + length (store color) * vertexCount,
                        store))"

text \<open>
  For \<open>updatePositions\<close>: the three values stored for a vertex; the traversal state seen
  from the position buffer and from the next-position buffer; the effect of the visitor
  on the latter; the next-position buffer once the saved start vertex is flushed.
\<close>

definition vertex_xyz :: "vertex \<Rightarrow> jsval list" where
  "vertex_xyz vertex = [js_get vertex 0, js_get vertex 1, js_or (js_get vertex 2) (Number 0)]"

definition pos_of :: "positions_state \<Rightarrow> typed_array \<times> nat" where
  "pos_of = (\<lambda>(positions, positions64xyLow, nextPositions, nextPositions64xyLow, i, nextI, startVertex).
      (positions, i * 3))"

definition next_of :: "positions_state \<Rightarrow> typed_array \<times> nat \<times> jsval list option" where
  "next_of = (\<lambda>(positions, positions64xyLow, nextPositions, nextPositions64xyLow, i, nextI, startVertex).
      (nextPositions, nextI, map_option (\<lambda>(x, y, z, xLow, yLow). [x, y, z]) startVertex))"

definition next_step ::
  "vertex \<times> nat \<Rightarrow> typed_array \<times> nat \<times> jsval list option \<Rightarrow> typed_array \<times> nat \<times> jsval list option" where
  "next_step = (\<lambda>(vertex, vertexIndex) (nextPositions, nextI, start).
      if vertexIndex = 0
      then (case start of
              None \<Rightarrow> (nextPositions, nextI, Some (vertex_xyz vertex))
            | Some s \<Rightarrow> (ta_write nextPositions (nextI * 3) s, nextI + 1, Some (vertex_xyz vertex)))
      else (ta_write nextPositions (nextI * 3) (vertex_xyz vertex), nextI + 1, start))"

definition next_flush :: "typed_array \<times> nat \<times> jsval list option \<Rightarrow> typed_array" where
  "next_flush = (\<lambda>(nextPositions, nextI, start).
      case start of None \<Rightarrow> nextPositions | Some s \<Rightarrow> ta_write nextPositions (nextI * 3) s)"

definition next_len :: "typed_array \<times> nat \<times> jsval list option \<Rightarrow> nat" where
  "next_len = (\<lambda>(nextPositions, nextI, start).
      nextI * 3 + (case start of None \<Rightarrow> 0 | Some s \<Rightarrow> length s))"

definition next_ok :: "typed_array \<times> nat \<times> jsval list option \<Rightarrow> bool" where
  "next_ok = (\<lambda>(nextPositions, nextI, start).
      case start of None \<Rightarrow> True | Some s \<Rightarrow> length s = 3)"

text \<open>\<open>attributes[key] || new Float32Array(pointCount * 3)\<close>\<close>

definition buffer_or_new :: "tesselator \<Rightarrow> string \<Rightarrow> typed_array" where
  "buffer_or_new t key =
     (case this_attributes t key of Some b \<Rightarrow> b | None \<Rightarrow> ta_new Float32 (this_pointCount t * 3))"

text \<open>
  The shape (element type and length) of the next-position buffer in a traversal state;
  the tesselators whose \<open>pointCount\<close> is the vertex count of their polygons and whose
  cached position buffers are the ones \<open>updatePositions\<close> allocates; the calls that
  leave the attribute name to its default.
\<close>

definition next_shape :: "positions_state \<Rightarrow> array_kind \<times> nat" where
  "next_shape = (\<lambda>(positions, positions64xyLow, nextPositions, nextPositions64xyLow, i, nextI, startVertex).
      (kind nextPositions, length (cells nextPositions)))"

definition positions_cache_ok :: "tesselator \<Rightarrow> bool" where
  "positions_cache_ok t =
     (this_pointCount t = getPointCount (this_polygons t) \<and>
      (\<forall>key\<in>{''positions'', ''nextPositions''}.
         case this_attributes t key of None \<Rightarrow> True
         | Some b \<Rightarrow> kind b = Float32 \<and> length (cells b) = this_pointCount t * 3))"

fun default_keyed :: "call \<Rightarrow> bool" where
  "default_keyed (Elevations key getElevation) = (key = None)"
| "default_keyed (Colors key getColor) = (key = None)"
| "default_keyed c = True"

text \<open>Two rings for the examples: a triangle and a square; a store of color arrays.\<close>

definition example_triangle :: ring where
  "example_triangle = [[Number 0, Number 0], [Number 1, Number 0], [Number 0, Number 1]]"

definition example_square :: ring where
  "example_square = [[Number 0, Number 0], [Number 4, Number 0], [Number 4, Number 4], [Number 0, Number 4]]"

text \<open>A triangulation for the examples: the fan from vertex 0.\<close>

definition fan_triangleCount :: "polygon \<Rightarrow> nat" where
  "fan_triangleCount p = Polygon_getVertexCount p - 2"

definition fan_indices :: "polygon \<Rightarrow> nat list" where
  "fan_indices p = concat (map (\<lambda>j. [0, j + 1, j + 2]) [0..<Polygon_getVertexCount p - 2])"

text \<open>A convex ring of 256 vertices, the points \<open>(j, j * j)\<close> of a parabola.\<close>

definition example_ring_256 :: ring where
  "example_ring_256 = map (\<lambda>j. [Number (of_nat j), Number (of_nat (j * j))]) [0..<256]"

definition example_store :: store where
  "example_store = (\<lambda>a. [Number 10, Number 20, Number 30])(1 := [Number 1, Number 2, Number 3, NaN])"

text \<open>
  The tesselator of a square with a triangular hole, and that of a triangle with a
  coordinate, \<open>2 ^ 24 + 1\<close>, that is a double-precision number and not a
  single-precision one.
\<close>

definition example_outer :: ring where
  "example_outer = [[Number 1, Number 1], [Number 5, Number 1], [Number 5, Number 5], [Number 1, Number 5]]"

definition example_hole :: ring where
  "example_hole = [[Number 2, Number 2], [Number 3, Number 2], [Number 2, Number 3]]"

definition example_tesselator :: tesselator where
  "example_tesselator =
     \<lparr>this_polygons = [[example_outer, example_hole]], this_pointCount = 7,
      this_IndexType = None,
      this_attributes =
        Map.empty(''pickingColors'' \<mapsto> calculatePickingColors [[example_outer, example_hole]] 7)\<rparr>"

definition example_wide :: ring where
  "example_wide = [[Number 16777217, Number 0], [Number 1, Number 0], [Number 0, Number 1]]"

definition example_wide_tesselator :: tesselator where
  "example_wide_tesselator =
     \<lparr>this_polygons = [[example_wide]], this_pointCount = 3,
      this_IndexType = None,
      this_attributes = Map.empty(''pickingColors'' \<mapsto> calculatePickingColors [[example_wide]] 3)\<rparr>"


section \<open>Sequential stores\<close>

lemma length_write_seq [simp]: "length (write_seq att i ws) = length att"
  by (auto simp: write_seq_def min_def)

lemma write_seq_Nil [simp]: "write_seq att i [] = att"
  by (simp add: write_seq_def)

lemma write_seq_single: "write_seq att i [v] = (if i < length att then att[i := v] else att)"
  by (simp add: write_seq_def upd_conv_take_nth_drop)

lemma nth_write_seq:
  "k < length att \<Longrightarrow> write_seq att i ws ! k = (if i \<le> k \<and> k < i + length ws then ws ! (k - i) else att ! k)"
  by (auto simp: write_seq_def nth_append min_def)

lemma write_seq_append:
  "write_seq (write_seq att i ws) (i + length ws) ws' = write_seq att i (ws @ ws')"
  by (rule nth_equalityI) (auto simp: nth_write_seq nth_append)

lemma write_seq_all: "length ws = length att \<Longrightarrow> write_seq att 0 ws = ws"
  by (simp add: write_seq_def)

lemma index_set_write_seq:
  "index_set t att i v = write_seq att i [case v of None \<Rightarrow> 0 | Some n \<Rightarrow> n mod 2 ^ index_bits t]"
  by (simp add: index_set_def write_seq_single)

lemma fold_write_seq:
  assumes "\<And>x att i. stp x (att, i) = (write_seq att i (g x), i + length (g x))"
  shows "fold stp xs (att, i) =
           (write_seq att i (concat (map g xs)), i + length (concat (map g xs)))"
proof (induction xs arbitrary: att i)
  case Nil
  then show ?case by simp
next
  case (Cons x xs)
  have "fold stp (x # xs) (att, i) = fold stp xs (write_seq att i (g x), i + length (g x))"
    by (simp add: assms)
  also have "\<dots> = (write_seq (write_seq att i (g x)) (i + length (g x)) (concat (map g xs)),
                    i + length (g x) + length (concat (map g xs)))"
    by (rule Cons.IH)
  also have "\<dots> = (write_seq att i (concat (map g (x # xs))), i + length (concat (map g (x # xs))))"
    by (simp add: write_seq_append)
  finally show ?case .
qed

lemma indices_inner:
  "fold (\<lambda>index (attribute, i). (index_set t attribute i (f index), Suc i)) xs (att, i) =
     (write_seq att i (map (\<lambda>index. case f index of None \<Rightarrow> 0 | Some n \<Rightarrow> n mod 2 ^ index_bits t) xs), i + length xs)"
  using fold_write_seq[where stp = "\<lambda>index (attribute, i). (index_set t attribute i (f index), Suc i)"
      and g = "\<lambda>index. [case f index of None \<Rightarrow> 0 | Some n \<Rightarrow> n mod 2 ^ index_bits t]" and xs = xs and att = att and i = i]
  by (simp add: index_set_write_seq concat_map_singleton)

section \<open>Counts and offsets\<close>

lemma offsets_fold:
  "n + length ps < length offs \<Longrightarrow>
   fold (\<lambda>(i, polygon) (offsets, offset).
                (array_set None offsets (i + 1) (Some (offset + Polygon_getVertexCount polygon)),
                 offset + Polygon_getVertexCount polygon)) (enumerate n ps) (offs, off) =
     (take (n + 1) offs @ map (\<lambda>j. Some (off + sum_list (map Polygon_getVertexCount (take (j + 1) ps)))) [0..<length ps]
        @ drop (n + 1 + length ps) offs,
      off + sum_list (map Polygon_getVertexCount ps))"
proof (induction ps arbitrary: n offs off)
  case Nil
  then show ?case by simp
next
  case (Cons p ps)
  let ?offs = "array_set None offs (Suc n) (Some (off + Polygon_getVertexCount p))"
  have len: "length ?offs = length offs" using Cons.prems by (simp add: array_set_def)
  have *: "Suc n + length ps < length ?offs" using Cons.prems len by simp
  have tk: "take (Suc (Suc n)) ?offs = take (Suc n) offs @ [Some (off + Polygon_getVertexCount p)]"
    using Cons.prems by (simp add: array_set_def take_Suc_conv_app_nth)
  have dr: "drop (Suc (Suc (n + length ps))) ?offs = drop (Suc (Suc (n + length ps))) offs"
    using Cons.prems by (simp add: array_set_def)
  have mp: "map (\<lambda>j. Some (off + sum_list (map Polygon_getVertexCount (take (Suc j) (p # ps))))) [0..<Suc (length ps)]
     = Some (off + Polygon_getVertexCount p) #
       map (\<lambda>j. Some (off + (Polygon_getVertexCount p + sum_list (map Polygon_getVertexCount (take (Suc j) ps))))) [0..<length ps]"
    by (simp add: upt_conv_Cons map_Suc_upt[symmetric] add.assoc del: upt_Suc)
  show ?case
    using Cons.IH[OF *, of "off + Polygon_getVertexCount p"]
    by (simp add: tk dr mp add.assoc del: upt_Suc take_Suc_Cons)
qed

lemma getPolygonOffsets_eq:
  "getPolygonOffsets polygons =
     map (\<lambda>k. Some (sum_list (map Polygon_getVertexCount (take k polygons)))) [0..<length polygons + 1]"
proof -
  have "getPolygonOffsets polygons = Some 0 # map (\<lambda>j. Some (sum_list (map Polygon_getVertexCount (take (j + 1) polygons)))) [0..<length polygons]"
    unfolding getPolygonOffsets_def Let_def
    by (subst offsets_fold) (simp_all add: array_set_def)
  also have "\<dots> = map (\<lambda>k. Some (sum_list (map Polygon_getVertexCount (take k polygons)))) [0..<length polygons + 1]"
    by (simp add: upt_conv_Cons map_Suc_upt[symmetric] del: upt_Suc)
  finally show ?thesis .
qed

lemma getPointCount_eq: "getPointCount polygons = sum_list (map Polygon_getVertexCount polygons)"
proof -
  have "fold (\<lambda>polygon points. points + Polygon_getVertexCount polygon) ps a = a + sum_list (map Polygon_getVertexCount ps)" for ps a
    by (induction ps arbitrary: a) simp_all
  then show ?thesis by (simp add: getPointCount_def)
qed

lemma getTriangleCount_eq: "getTriangleCount gtc polygons = sum_list (map gtc polygons)"
proof -
  have "fold (\<lambda>polygon triangles. triangles + gtc polygon) ps a = a + sum_list (map gtc ps)" for ps a
    by (induction ps arbitrary: a) simp_all
  then show ?thesis by (simp add: getTriangleCount_def)
qed

lemma map_enumerate_nth:
  "map (\<lambda>(k, p). F k p) (enumerate 0 ps) = map (\<lambda>k. F k (ps ! k)) [0..<length ps]"
  by (rule nth_equalityI) (simp_all add: nth_enumerate_eq)

lemma offsets_get_prefix:
  "k \<le> length polygons \<Longrightarrow>
   offsets_get (getPolygonOffsets polygons) k = Some (sum_list (map Polygon_getVertexCount (take k polygons)))"
  by (simp add: offsets_get_def getPolygonOffsets_eq nth_append del: upt_Suc)

lemma prefix_le_total:
  "k < length polygons \<Longrightarrow>
   sum_list (map Polygon_getVertexCount (take k polygons)) + Polygon_getVertexCount (polygons ! k)
     \<le> sum_list (map Polygon_getVertexCount polygons)"
proof -
  assume k: "k < length polygons"
  have "sum_list (map Polygon_getVertexCount (take (Suc k) polygons)) \<le> sum_list (map Polygon_getVertexCount polygons)"
    using sum_list_append[of "map Polygon_getVertexCount (take (Suc k) polygons)" "map Polygon_getVertexCount (drop (Suc k) polygons)"]
    by (simp add: map_append[symmetric] del: map_append)
  then show ?thesis using k by (simp add: take_Suc_conv_app_nth)
qed

lemma calculateIndices_write_seq:
  "calculateIndices gtc gsi polygons IndexType =
     write_seq (replicate (3 * sum_list (map gtc polygons)) 0) 0
       (concat (map (\<lambda>k. map (stored_index IndexType polygons k) (gsi (polygons ! k))) [0..<length polygons]))"
proof -
  let ?g = "\<lambda>(k, p). map (stored_index IndexType polygons k) (gsi p)"
  have "calculateIndices gtc gsi polygons IndexType =
          write_seq (replicate (3 * sum_list (map gtc polygons)) 0) 0 (concat (map ?g (enumerate 0 polygons)))"
    unfolding calculateIndices_def Let_def getTriangleCount_eq
    by (subst fold_write_seq[where g = ?g])
       (simp_all add: indices_inner stored_index_def[abs_def] comp_def split: prod.splits)
  then show ?thesis by (simp add: map_enumerate_nth)
qed

lemma stored_index_eq:
  assumes "k < length polygons"
    and "index + sum_list (map Polygon_getVertexCount (take k polygons))
           < 2 ^ index_bits (case IndexType of None \<Rightarrow> Uint32Array | Some t \<Rightarrow> t)"
  shows "stored_index IndexType polygons k index = index + sum_list (map Polygon_getVertexCount (take k polygons))"
  using assms by (simp add: stored_index_def offsets_get_prefix)

lemma stored_index_le:
  assumes "k < length polygons"
  shows "stored_index IndexType polygons k index \<le> index + sum_list (map Polygon_getVertexCount (take k polygons))"
  using assms by (simp add: stored_index_def offsets_get_prefix)

lemma length_example_ring_256 [simp]: "length example_ring_256 = 256"
  by (simp add: example_ring_256_def)

lemma length_fan_indices: "length (fan_indices p) = 3 * fan_triangleCount p"
  by (simp add: fan_indices_def fan_triangleCount_def length_concat comp_def sum_list_triv)


section \<open>Stores into typed arrays\<close>

text \<open>
  Integers of up to 24 bits are single-precision numbers; \<open>2 ^ 24 + 1\<close> and \<open>1 / 10\<close>
  are not.
\<close>

lemma round_half_even_of_int [simp]: "round_half_even (of_int m) = m"
  by (simp add: round_half_even_def)

lemma float_exponent_low: "a < 2 powi (e + 1) \<Longrightarrow> float_exponent n e a = e"
  by (cases n) simp_all

lemma float_exponent_log:
  "2 powi e \<le> a \<Longrightarrow> a < 2 powi (e + int n) \<Longrightarrow> float_exponent n e a = \<lfloor>log 2 a\<rfloor>"
proof (induction n arbitrary: e)
  case 0
  then show ?case by simp
next
  case (Suc n)
  have "0 < (2::real) powi e" by simp
  then have pos: "0 < a" using Suc.prems(1) by linarith
  show ?case
  proof (cases "2 powi (e + 1) \<le> a")
    case True
    have "a < 2 powi (e + 1 + int n)" using Suc.prems(2) by (simp add: algebra_simps)
    with True have "float_exponent n (e + 1) a = \<lfloor>log 2 a\<rfloor>" by (rule Suc.IH)
    then show ?thesis using True by simp
  next
    case False
    have p: "(2::real) powr real_of_int k = 2 powi k" for k
      by (simp add: powr_real_of_int')
    have "2 powr real_of_int e \<le> a \<and> a < 2 powr real_of_int (e + 1)"
      unfolding p using Suc.prems(1) False by simp
    then have "\<lfloor>log 2 a\<rfloor> = e"
      using pos by (simp add: floor_log_eq_powr_iff)
    then show ?thesis using False by simp
  qed
qed

lemma fround_small_int:
  assumes "\<bar>n\<bar> < 2 ^ 24"
  shows "fround (of_int n) = Number (of_int n)"
proof (cases "n = 0")
  case True
  have "float_exponent 253 (- 126) 0 = - 126"
    by (rule float_exponent_low) simp
  moreover have "round_half_even 0 = 0" by (simp add: round_half_even_def)
  ultimately show ?thesis using True by (simp add: fround_def)
next
  case False
  define a :: real where "a = \<bar>of_int n\<bar>"
  have a1: "1 \<le> a" using False by (simp add: a_def)
  have a24: "a < 2 ^ 24" using assms unfolding a_def
    by (metis of_int_abs of_int_less_numeral_power_cancel_iff)
  define e where "e = \<lfloor>log 2 a\<rfloor>"
  have e0: "0 \<le> e" using a1 by (simp add: e_def)
  have "a < 2 powr 24" using a24 by simp
  then have "log 2 a < 24" using a1 by (simp add: log_less_iff)
  then have e23: "e \<le> 23" unfolding e_def by linarith
  have lo: "2 powi (- 126) \<le> a"
  proof -
    have "(2::real) powi (- 126) \<le> 1" by (simp add: power_int_minus_divide)
    then show ?thesis using a1 by linarith
  qed
  have hi: "a < 2 powi (- 126 + int 253)"
    using a24 by simp
  have ex: "float_exponent 253 (- 126) a = e"
    unfolding e_def using lo hi by (rule float_exponent_log)
  define k where "k = nat (23 - e)"
  have ulp: "(2::real) powi (e - 23) = 1 / 2 ^ k"
  proof -
    have "e - 23 = - int k" using e23 by (simp add: k_def)
    then show ?thesis by (simp add: power_int_minus_divide)
  qed
  have q: "real_of_int n / (1 / 2 ^ k) = of_int (n * 2 ^ k)" by simp
  have small: "\<not> 2 ^ 128 \<le> \<bar>real_of_int n\<bar>"
    using a24 unfolding a_def by simp
  show ?thesis
    unfolding fround_def Let_def a_def[symmetric] ex ulp q round_half_even_of_int
    using False small by simp
qed

lemma toFloat32_small_int:
  "\<bar>n\<bar> < 2 ^ 24 \<Longrightarrow> toFloat32 (Number (of_int n)) = Number (of_int n)"
  by (simp add: toFloat32_def fround_small_int)

lemma toFloat32_examples:
  "toFloat32 (Number 0) = Number 0"
  "toFloat32 (Number 1) = Number 1"
  "toFloat32 (Number 2) = Number 2"
  "toFloat32 (Number 3) = Number 3"
  "toFloat32 (Number 5) = Number 5"
  using toFloat32_small_int[of 0] toFloat32_small_int[of 1] toFloat32_small_int[of 2]
    toFloat32_small_int[of 3] toFloat32_small_int[of 5]
  by simp_all

lemma fround_tenth: "fround (1 / 10) = Number (13421773 / 134217728)"
proof -
  have "float_exponent 253 (- 126) \<bar>1 / 10\<bar> = \<lfloor>log 2 \<bar>1 / 10 :: real\<bar>\<rfloor>"
    by (rule float_exponent_log) (simp_all add: power_int_minus_divide)
  also have "\<dots> = - 4"
    by (subst floor_log_eq_powr_iff) (simp_all add: powr_minus_divide)
  finally have e: "float_exponent 253 (- 126) \<bar>1 / 10\<bar> = - 4" .
  have ulp: "(2::real) powi (- 4 - 23) = 1 / 134217728"
    by simp
  have r: "round_half_even (1 / 10 / (1 / 134217728)) = 13421773"
    by (simp add: round_half_even_def Let_def)
  show ?thesis
    unfolding fround_def Let_def e ulp r by simp
qed

lemma fround_wide: "fround 16777217 = Number 16777216"
proof -
  have "float_exponent 253 (- 126) \<bar>16777217\<bar> = \<lfloor>log 2 \<bar>16777217 :: real\<bar>\<rfloor>"
    by (rule float_exponent_log) (simp_all add: power_int_minus_divide)
  also have "\<dots> = 24"
    by (subst floor_log_eq_powr_iff) simp_all
  finally have e: "float_exponent 253 (- 126) \<bar>16777217\<bar> = 24" .
  have ulp: "(2::real) powi (24 - 23) = 2"
    by simp
  have r: "round_half_even (16777217 / 2) = 8388608"
    by (simp add: round_half_even_def Let_def)
  show ?thesis
    unfolding fround_def Let_def e ulp r by simp
qed

lemma toFloat32_wide: "toFloat32 (Number 16777217) = Number 16777216"
  by (simp add: toFloat32_def fround_wide)

lemma kind_ta_write [simp]: "kind (ta_write t i ws) = kind t"
  by (simp add: ta_write_def)

lemma length_cells_ta_write [simp]: "length (cells (ta_write t i ws)) = length (cells t)"
  by (simp add: ta_write_def)

lemma ta_write_Nil [simp]: "ta_write t i [] = t"
  by (simp add: ta_write_def)

lemma ta_set_ta_write: "ta_set t i v = ta_write t i [v]"
  by (simp add: ta_set_def ta_write_def write_seq_single)

lemma ta_write_append:
  "ta_write (ta_write t i ws) (i + length ws) ws' = ta_write t i (ws @ ws')"
  using write_seq_append[of "cells t" i "map (convert (kind t)) ws" "map (convert (kind t)) ws'"]
  by (simp add: ta_write_def)

lemma ta_write_Cons:
  "ta_write (ta_write t i [v]) (Suc i) ws = ta_write t i (v # ws)"
  using ta_write_append[of t i "[v]" ws] by simp

lemma fillArray_fold:
  "fold (\<lambda>(k, v) target. ta_set target (start + k) v) (enumerate n xs) t = ta_write t (start + n) xs"
proof (induction xs arbitrary: n t)
  case Nil
  then show ?case by simp
next
  case (Cons x xs)
  show ?case
    using Cons.IH[of "Suc n" "ta_write t (start + n) [x]"] ta_write_Cons[of t "start + n" x xs]
    by (simp add: ta_set_ta_write)
qed

lemma fillArray_ta_write:
  "fillArray target source start count = ta_write target start (concat (replicate count source))"
  using fillArray_fold[of start 0] by (simp add: fillArray_def)

lemma fold_ta_write:
  assumes "\<And>x t i. stp x (t, i) = (ta_write t i (g x), i + length (g x))"
  shows "fold stp xs (t, i) =
           (ta_write t i (concat (map g xs)), i + length (concat (map g xs)))"
proof (induction xs arbitrary: t i)
  case Nil
  then show ?case by simp
next
  case (Cons x xs)
  have "fold stp (x # xs) (t, i) = fold stp xs (ta_write t i (g x), i + length (g x))"
    by (simp add: assms)
  also have "\<dots> = (ta_write (ta_write t i (g x)) (i + length (g x)) (concat (map g xs)),
                    i + length (g x) + length (concat (map g xs)))"
    by (rule Cons.IH)
  also have "\<dots> = (ta_write t i (concat (map g (x # xs))), i + length (concat (map g (x # xs))))"
    by (simp add: ta_write_append)
  finally show ?case .
qed

lemma length_concat_replicate [simp]:
  "length (concat (replicate n xs)) = n * length xs"
  by (induction n) simp_all

lemma cells_ta_write_all:
  "length ws = length (cells t) \<Longrightarrow> cells (ta_write t 0 ws) = map (convert (kind t)) ws"
  by (simp add: ta_write_def write_seq_all)

lemma length_getPickingColor [simp]: "length (getPickingColor k) = 3"
  by (simp add: getPickingColor_def Let_def)

lemma calculatePickingColors_ta_write:
  "calculatePickingColors polygons pointCount =
     ta_write (ta_new Uint8Clamped (pointCount * 3)) 0
       (concat (map (\<lambda>k. concat (replicate (Polygon_getVertexCount (polygons ! k)) (getPickingColor k)))
                    [0..<length polygons]))"
proof -
  let ?g = "\<lambda>(k, p). concat (replicate (Polygon_getVertexCount p) (getPickingColor k))"
  have "calculatePickingColors polygons pointCount =
          ta_write (ta_new Uint8Clamped (pointCount * 3)) 0 (concat (map ?g (enumerate 0 polygons)))"
    unfolding calculatePickingColors_def Let_def
    by (subst fold_ta_write[where g = ?g])
       (simp_all add: fillArray_ta_write mult.commute split: prod.splits)
  then show ?thesis by (simp add: map_enumerate_nth)
qed

lemma nth_concat_blocks:
  "p < length bs \<Longrightarrow> i < length (bs ! p) \<Longrightarrow>
   concat bs ! (sum_list (map length (take p bs)) + i) = bs ! p ! i"
proof (induction bs arbitrary: p)
  case Nil
  then show ?case by simp
next
  case (Cons b bs)
  show ?case
  proof (cases p)
    case 0
    with Cons.prems show ?thesis by (simp add: nth_append)
  next
    case (Suc q)
    with Cons.prems Cons.IH[of q] show ?thesis by (simp add: nth_append add.assoc)
  qed
qed

lemma nth_concat_replicate:
  "j < n \<Longrightarrow> c < length xs \<Longrightarrow> concat (replicate n xs) ! (length xs * j + c) = xs ! c"
proof (induction n arbitrary: j)
  case 0
  then show ?case by simp
next
  case (Suc n)
  show ?case
  proof (cases j)
    case 0
    with Suc.prems show ?thesis by (simp add: nth_append)
  next
    case (Suc i)
    with Suc.prems Suc.IH[of i] show ?thesis by (simp add: nth_append add.assoc)
  qed
qed

text \<open>The per-polygon fill pattern, read at a vertex of polygon p.\<close>

lemma nth_fill_pattern:
  assumes p: "p < length polygons"
    and m: "\<forall>k<length polygons. length (pat k) = m"
    and j: "j < Polygon_getVertexCount (polygons ! p)"
    and c: "c < m"
  shows "concat (map (\<lambda>k. concat (replicate (Polygon_getVertexCount (polygons ! k)) (pat k))) [0..<length polygons])
           ! (m * (sum_list (map Polygon_getVertexCount (take p polygons)) + j) + c) = pat p ! c"
proof -
  let ?bs = "map (\<lambda>k. concat (replicate (Polygon_getVertexCount (polygons ! k)) (pat k))) [0..<length polygons]"
  have lens: "map length (take p ?bs) = map (\<lambda>q. m * Polygon_getVertexCount q) (take p polygons)"
  proof (rule nth_equalityI)
    show "length (map length (take p ?bs)) = length (map (\<lambda>q. m * Polygon_getVertexCount q) (take p polygons))"
      using p by simp
  next
    fix i assume "i < length (map length (take p ?bs))"
    then have i: "i < p" by simp
    then show "map length (take p ?bs) ! i = map (\<lambda>q. m * Polygon_getVertexCount q) (take p polygons) ! i"
      using p m by (simp add: mult.commute)
  qed
  have off: "sum_list (map length (take p ?bs)) = m * sum_list (map Polygon_getVertexCount (take p polygons))"
    by (simp add: lens sum_list_const_mult)
  have bp: "?bs ! p = concat (replicate (Polygon_getVertexCount (polygons ! p)) (pat p))"
    using p by simp
  have lp: "length (pat p) = m" using m p by simp
  have inb: "m * j + c < length (?bs ! p)"
  proof -
    have "m * j + c < m * j + m" using c by simp
    also have "\<dots> = m * Suc j" by simp
    also have "\<dots> \<le> m * Polygon_getVertexCount (polygons ! p)" using j by (intro mult_le_mono2) simp
    finally show ?thesis by (simp add: bp lp mult.commute)
  qed
  have "concat ?bs ! (sum_list (map length (take p ?bs)) + (m * j + c)) = ?bs ! p ! (m * j + c)"
    using p inb by (intro nth_concat_blocks) simp_all
  also have "\<dots> = pat p ! c"
    using nth_concat_replicate[of j "Polygon_getVertexCount (polygons ! p)" c "pat p"] j c lp
    by (simp add: bp)
  finally show ?thesis by (simp add: off distrib_left add.assoc)
qed

section \<open>The index buffer: contents and range\<close>

lemma calculateIndices_stored:
  assumes contract: "\<forall>p\<in>set polygons. length (gsi p) = 3 * gtc p"
  shows "calculateIndices gtc gsi polygons IndexType =
           concat (map (\<lambda>k. map (stored_index IndexType polygons k) (gsi (polygons ! k)))
                       [0..<length polygons])"
proof -
  let ?ws = "concat (map (\<lambda>k. map (stored_index IndexType polygons k) (gsi (polygons ! k))) [0..<length polygons])"
  have "length ?ws = sum_list (map (\<lambda>k. length (gsi (polygons ! k))) [0..<length polygons])"
    by (simp add: length_concat comp_def)
  also have "\<dots> = sum_list (map (\<lambda>p. length (gsi p)) polygons)"
    by (subst (2) map_nth[symmetric, of polygons]) (simp only: map_map comp_def)
  also have "\<dots> = sum_list (map (\<lambda>p. 3 * gtc p) polygons)"
    using contract by (intro arg_cong[where f = sum_list] map_cong) simp_all
  also have "\<dots> = 3 * sum_list (map gtc polygons)"
    by (simp add: sum_list_const_mult)
  finally have "length ?ws = 3 * sum_list (map gtc polygons)" .
  then show ?thesis by (simp add: calculateIndices_write_seq write_seq_all)
qed

lemma stored_index_mod:
  "k < length polygons \<Longrightarrow>
   stored_index IndexType polygons k index =
     (index + sum_list (map Polygon_getVertexCount (take k polygons)))
       mod 2 ^ index_bits (case IndexType of None \<Rightarrow> Uint32Array | Some t \<Rightarrow> t)"
  by (simp add: stored_index_def offsets_get_prefix)

text \<open>
  C1, as amended. For every polygon collection, the index buffer that \<open>calculateIndices\<close>
  returns has length 3 times the sum of the triangle counts, and, the triangulation
  enumerating \<open>3 * triangleCount\<close> indices for every polygon, it holds, polygon after
  polygon in collection order, the local surface indices of the polygon in the order in
  which the triangulation enumerates them, each one shifted by \<open>offsets[polygonIndex]\<close>,
  the number of vertices of all the polygons before it, and stored modulo \<open>2 ^ bits\<close> of
  the index type: the shifted indices themselves whenever they are representable in the
  index type.
\<close>

theorem calculateIndices_contents:
  "length (calculateIndices gtc gsi polygons IndexType) = 3 * sum_list (map gtc polygons) \<and>
   (\<forall>k<length polygons.
      getPolygonOffsets polygons ! k = Some (sum_list (map Polygon_getVertexCount (take k polygons)))) \<and>
   ((\<forall>p\<in>set polygons. length (gsi p) = 3 * gtc p) \<longrightarrow>
      calculateIndices gtc gsi polygons IndexType =
        concat (map (\<lambda>k. map (\<lambda>index. (index + sum_list (map Polygon_getVertexCount (take k polygons)))
                                      mod 2 ^ index_bits (case IndexType of None \<Rightarrow> Uint32Array
                                                          | Some t \<Rightarrow> t))
                             (gsi (polygons ! k)))
                    [0..<length polygons]) \<and>
      ((\<forall>k<length polygons. \<forall>index\<in>set (gsi (polygons ! k)).
          index + sum_list (map Polygon_getVertexCount (take k polygons))
            < 2 ^ index_bits (case IndexType of None \<Rightarrow> Uint32Array | Some t \<Rightarrow> t)) \<longrightarrow>
       calculateIndices gtc gsi polygons IndexType =
         concat (map (\<lambda>k. map (\<lambda>index. index + sum_list (map Polygon_getVertexCount (take k polygons)))
                              (gsi (polygons ! k)))
                     [0..<length polygons])))"
proof -
  let ?bits = "index_bits (case IndexType of None \<Rightarrow> Uint32Array | Some t \<Rightarrow> t)"
  let ?ws = "concat (map (\<lambda>k. map (stored_index IndexType polygons k) (gsi (polygons ! k))) [0..<length polygons])"
  have len: "length (calculateIndices gtc gsi polygons IndexType) = 3 * sum_list (map gtc polygons)"
    by (simp add: calculateIndices_write_seq)
  have off: "\<forall>k<length polygons.
            getPolygonOffsets polygons ! k = Some (sum_list (map Polygon_getVertexCount (take k polygons)))"
    by (simp add: getPolygonOffsets_eq nth_append del: upt_Suc)
  have wrapped: "?ws = concat (map (\<lambda>k. map (\<lambda>index. (index + sum_list (map Polygon_getVertexCount (take k polygons))) mod 2 ^ ?bits)
                                (gsi (polygons ! k))) [0..<length polygons])"
    by (intro arg_cong[where f = concat] map_cong) (simp_all add: stored_index_mod)
  have exact: "?ws = concat (map (\<lambda>k. map (\<lambda>index. index + sum_list (map Polygon_getVertexCount (take k polygons)))
                                (gsi (polygons ! k))) [0..<length polygons])"
    if fits: "\<forall>k<length polygons. \<forall>index\<in>set (gsi (polygons ! k)).
                 index + sum_list (map Polygon_getVertexCount (take k polygons)) < 2 ^ ?bits"
    using fits by (intro arg_cong[where f = concat] map_cong) (simp_all add: stored_index_eq)
  show ?thesis
  proof (intro conjI impI)
    show "length (calculateIndices gtc gsi polygons IndexType) = 3 * sum_list (map gtc polygons)"
      by (rule len)
    show "\<forall>k<length polygons.
            getPolygonOffsets polygons ! k = Some (sum_list (map Polygon_getVertexCount (take k polygons)))"
      by (rule off)
  next
    assume c: "\<forall>p\<in>set polygons. length (gsi p) = 3 * gtc p"
    show "calculateIndices gtc gsi polygons IndexType =
        concat (map (\<lambda>k. map (\<lambda>index. (index + sum_list (map Polygon_getVertexCount (take k polygons))) mod 2 ^ ?bits)
                             (gsi (polygons ! k))) [0..<length polygons])"
      using calculateIndices_stored[OF c, of IndexType] wrapped by simp
  next
    assume c: "\<forall>p\<in>set polygons. length (gsi p) = 3 * gtc p"
      and f: "\<forall>k<length polygons. \<forall>index\<in>set (gsi (polygons ! k)).
                 index + sum_list (map Polygon_getVertexCount (take k polygons)) < 2 ^ ?bits"
    show "calculateIndices gtc gsi polygons IndexType =
         concat (map (\<lambda>k. map (\<lambda>index. index + sum_list (map Polygon_getVertexCount (take k polygons)))
                              (gsi (polygons ! k))) [0..<length polygons])"
      using calculateIndices_stored[OF c, of IndexType] exact[OF f] by simp
  qed
qed

theorem calculateIndices_contents_witness:
  "calculateIndices (\<lambda>p. 1) (\<lambda>p. [0, 2, 1]) [[example_triangle], [example_square]] (Some Uint16Array)
     = [0, 2, 1, 3, 5, 4]"
proof -
  let ?ps = "[[example_triangle], [example_square]]"
  have c: "\<forall>p\<in>set ?ps. length ((\<lambda>p. [0, 2, 1 :: nat]) p) = 3 * (\<lambda>p. 1) p"
    by simp
  have f: "\<forall>k<length ?ps. \<forall>index\<in>set ((\<lambda>p. [0, 2, 1 :: nat]) (?ps ! k)).
             index + sum_list (map Polygon_getVertexCount (take k ?ps))
               < 2 ^ index_bits (case Some Uint16Array of None \<Rightarrow> Uint32Array | Some t \<Rightarrow> t)"
    by (simp add: less_Suc_eq Polygon_getVertexCount_def example_triangle_def)
  note t = calculateIndices_contents[where polygons = ?ps and gsi = "\<lambda>p. [0, 2, 1]" and gtc = "\<lambda>p. 1"
             and IndexType = "Some Uint16Array"]
  have "calculateIndices (\<lambda>p. 1) (\<lambda>p. [0, 2, 1]) ?ps (Some Uint16Array) =
         concat (map (\<lambda>k. map (\<lambda>index. index + sum_list (map Polygon_getVertexCount (take k ?ps)))
                              ((\<lambda>p. [0, 2, 1]) (?ps ! k)))
                     [0..<length ?ps])"
    using t[THEN conjunct2, THEN conjunct2] c f by blast
  then show ?thesis
    by (simp add: Polygon_getVertexCount_def example_triangle_def)
qed

text \<open>
  C1 as stated fails. A convex ring of 256 vertices followed by a triangle, both
  triangulated as fans, with 8-bit indices: the offset of the triangle is 256, the claim
  gives its indices as 256, 257 and 258, and the buffer holds 0, 1 and 2 after the
  indices of the first polygon. The constructor accepts this collection.
\<close>

theorem calculateIndices_contents_counterexample:
  "getPolygonOffsets [[example_ring_256], [example_triangle]] = [Some 0, Some 256, Some 259] \<and>
   fan_indices [example_triangle] = [0, 1, 2] \<and>
   drop (3 * fan_triangleCount [example_ring_256])
     (calculateIndices fan_triangleCount fan_indices [[example_ring_256], [example_triangle]]
        (Some Uint8Array)) = [0, 1, 2] \<and>
   PolygonTesselator [SimpleRing example_ring_256, SimpleRing example_triangle] (Some Uint8Array)
     \<noteq> Inl VertexCountExceedsLimit"
proof -
  let ?ps = "[[example_ring_256], [example_triangle]]"
  have c: "\<forall>p\<in>set ?ps. length (fan_indices p) = 3 * fan_triangleCount p"
    by (simp add: length_fan_indices)
  have a: "getPolygonOffsets ?ps = [Some 0, Some 256, Some 259]"
    by (simp add: getPolygonOffsets_eq Polygon_getVertexCount_def example_triangle_def)
  have t: "fan_indices [example_triangle] = [0, 1, 2]"
    by (simp add: fan_indices_def Polygon_getVertexCount_def example_triangle_def)
  have "calculateIndices fan_triangleCount fan_indices ?ps (Some Uint8Array)
      = map (stored_index (Some Uint8Array) ?ps 0) (fan_indices [example_ring_256])
        @ map (stored_index (Some Uint8Array) ?ps 1) (fan_indices [example_triangle])"
    using calculateIndices_stored[OF c, of "Some Uint8Array"] by simp
  then have "drop (3 * fan_triangleCount [example_ring_256])
     (calculateIndices fan_triangleCount fan_indices ?ps (Some Uint8Array))
      = map (stored_index (Some Uint8Array) ?ps 1) (fan_indices [example_triangle])"
    by (simp add: length_fan_indices)
  then have b: "drop (3 * fan_triangleCount [example_ring_256])
     (calculateIndices fan_triangleCount fan_indices ?ps (Some Uint8Array)) = [0, 1, 2]"
    by (simp add: t stored_index_mod Polygon_getVertexCount_def)
  have d: "PolygonTesselator [SimpleRing example_ring_256, SimpleRing example_triangle]
     (Some Uint8Array) \<noteq> Inl VertexCountExceedsLimit"
    by (simp add: PolygonTesselator_def Let_def)
  show ?thesis using a t b d by simp
qed

text \<open>
  C2. When every local surface index that the triangulation returns for a polygon is at
  least 0 and less than the polygon's vertex count, every value that \<open>calculateIndices\<close>
  writes into the index buffer is at least 0 and less than \<open>pointCount\<close>. Indices are
  natural numbers, so "at least 0" holds by their type; the written cells are those
  below the number of enumerated indices.
\<close>

theorem calculateIndices_in_range:
  assumes local: "\<forall>p\<in>set polygons. \<forall>index\<in>set (gsi p). index < Polygon_getVertexCount p"
  shows "\<forall>j<length (calculateIndices gtc gsi polygons IndexType).
           j < sum_list (map (\<lambda>p. length (gsi p)) polygons) \<longrightarrow>
           calculateIndices gtc gsi polygons IndexType ! j < getPointCount polygons"
proof (intro allI impI)
  fix j
  let ?ws = "concat (map (\<lambda>k. map (stored_index IndexType polygons k) (gsi (polygons ! k))) [0..<length polygons])"
  assume j: "j < length (calculateIndices gtc gsi polygons IndexType)"
    and w: "j < sum_list (map (\<lambda>p. length (gsi p)) polygons)"
  have lenws: "length ?ws = sum_list (map (\<lambda>p. length (gsi p)) polygons)"
  proof -
    have "length ?ws = sum_list (map (\<lambda>k. length (gsi (polygons ! k))) [0..<length polygons])"
      by (simp add: length_concat comp_def)
    also have "\<dots> = sum_list (map (\<lambda>p. length (gsi p)) polygons)"
      by (subst (2) map_nth[symmetric, of polygons]) (simp only: map_map comp_def)
    finally show ?thesis .
  qed
  have eq: "calculateIndices gtc gsi polygons IndexType ! j = ?ws ! j"
    using j w lenws by (simp add: calculateIndices_write_seq nth_write_seq)
  have mem: "?ws ! j \<in> set ?ws" using w lenws by (intro nth_mem) simp
  have bound: "\<forall>v\<in>set ?ws. v < getPointCount polygons"
  proof
    fix v assume "v \<in> set ?ws"
    then obtain k index where k: "k < length polygons" and i: "index \<in> set (gsi (polygons ! k))"
      and v: "v = stored_index IndexType polygons k index" by auto
    have "index < Polygon_getVertexCount (polygons ! k)" using local k i by simp
    then have "v < sum_list (map Polygon_getVertexCount (take k polygons)) + Polygon_getVertexCount (polygons ! k)"
      using stored_index_le[OF k, of IndexType index] v by simp
    then show "v < getPointCount polygons"
      using prefix_le_total[OF k] by (simp add: getPointCount_eq)
  qed
  from bound mem have "?ws ! j < getPointCount polygons" by (rule bspec)
  then show "calculateIndices gtc gsi polygons IndexType ! j < getPointCount polygons"
    by (simp only: eq)
qed


theorem calculateIndices_in_range_witness:
  "calculateIndices (\<lambda>p. 1) (\<lambda>p. [0, 2, 1]) [[example_triangle], [example_square]] None ! 4
     < getPointCount [[example_triangle], [example_square]]"
proof -
  let ?ps = "[[example_triangle], [example_square]]"
  have l: "\<forall>p\<in>set ?ps. \<forall>index\<in>set ((\<lambda>p. [0, 2, 1 :: nat]) p). index < Polygon_getVertexCount p"
    by (simp add: Polygon_getVertexCount_def example_triangle_def example_square_def)
  have n: "length (calculateIndices (\<lambda>p. 1) (\<lambda>p. [0, 2, 1]) ?ps None) = 6"
    by (simp add: calculateIndices_write_seq)
  show ?thesis
    using calculateIndices_in_range[OF l, of "\<lambda>p. 1" None] n by simp
qed


section \<open>The offsets\<close>

text \<open>
  C8. For a collection of \<open>n\<close> polygons, \<open>getPolygonOffsets\<close> returns an array of length
  \<open>n + 1\<close> whose element 0 is 0 and whose element \<open>i + 1\<close> is element \<open>i\<close> plus the
  vertex count of polygon \<open>i\<close>; for two polygons of 3 and 4 vertices the offsets are
  \<open>[0, 3, 7]\<close>.
\<close>

theorem getPolygonOffsets_prefix_sums:
  "length (getPolygonOffsets polygons) = length polygons + 1 \<and>
   getPolygonOffsets polygons ! 0 = Some 0 \<and>
   (\<forall>i<length polygons. \<exists>a.
      getPolygonOffsets polygons ! i = Some a \<and>
      getPolygonOffsets polygons ! (i + 1) = Some (a + Polygon_getVertexCount (polygons ! i))) \<and>
   (Polygon_getVertexCount p = 3 \<and> Polygon_getVertexCount q = 4 \<longrightarrow>
      getPolygonOffsets [p, q] = [Some 0, Some 3, Some 7])"
proof -
  have len: "length (getPolygonOffsets polygons) = length polygons + 1"
    by (simp add: getPolygonOffsets_eq)
  have zero: "getPolygonOffsets polygons ! 0 = Some 0"
    by (simp add: getPolygonOffsets_eq nth_append del: upt_Suc)
  have suc: "\<forall>i<length polygons. \<exists>a.
      getPolygonOffsets polygons ! i = Some a \<and>
      getPolygonOffsets polygons ! (i + 1) = Some (a + Polygon_getVertexCount (polygons ! i))"
    by (simp add: getPolygonOffsets_eq nth_append take_Suc_conv_app_nth del: upt_Suc)
  have ex: "Polygon_getVertexCount p = 3 \<and> Polygon_getVertexCount q = 4 \<longrightarrow>
      getPolygonOffsets [p, q] = [Some 0, Some 3, Some 7]"
    by (simp add: getPolygonOffsets_eq)
  show ?thesis using len zero suc ex by simp
qed

theorem getPolygonOffsets_prefix_sums_witness:
  "getPolygonOffsets [[example_triangle], [example_square]] = [Some 0, Some 3, Some 7]"
  using getPolygonOffsets_prefix_sums[of "[[example_triangle], [example_square]]"
          "[example_triangle]" "[example_square]"]
  by (simp add: Polygon_getVertexCount_def example_triangle_def example_square_def)

lemma step_frame:
  "this_polygons (fst (step lowPart c s)) = this_polygons (fst s) \<and>
   this_pointCount (fst (step lowPart c s)) = this_pointCount (fst s) \<and>
   this_IndexType (fst (step lowPart c s)) = this_IndexType (fst s)"
  by (cases c; cases s)
     (simp_all add: tesselator_updatePositions_def tesselator_elevations_def tesselator_colors_def
        Let_def split: prod.splits)

lemma run_frame:
  "this_polygons (fst (run lowPart calls s)) = this_polygons (fst s) \<and>
   this_pointCount (fst (run lowPart calls s)) = this_pointCount (fst s) \<and>
   this_IndexType (fst (run lowPart calls s)) = this_IndexType (fst s)"
  unfolding run_def
proof (induction calls arbitrary: s)
  case Nil
  then show ?case by simp
next
  case (Cons c calls)
  show ?case using Cons.IH[of "step lowPart c s"] step_frame[of lowPart c s] by simp
qed

lemma constructed_fields:
  "PolygonTesselator raw IndexType = Inr t \<Longrightarrow>
     this_polygons t = map Polygon_normalize raw \<and>
     this_pointCount t = getPointCount (map Polygon_normalize raw) \<and>
     this_IndexType t = IndexType"
  by (auto simp: PolygonTesselator_def Let_def split: if_splits)

section \<open>The tesselator's fields\<close>

text \<open>
  C7. For every polygon collection that the constructor accepts, the tesselator holds
  that collection (each polygon normalized) and its \<open>pointCount\<close> is exactly the sum of
  the vertex counts of the polygons of the collection; this stays so for the lifetime of
  the tesselator: after any sequence of calls of its methods the collection is still
  the one given at construction and \<open>pointCount\<close> is still that sum.
\<close>

theorem pointCount_invariant:
  assumes "PolygonTesselator raw IndexType = Inr t"
  shows "this_polygons t = map Polygon_normalize raw \<and>
         this_pointCount t = sum_list (map (\<lambda>p. Polygon_getVertexCount (Polygon_normalize p)) raw) \<and>
         (\<forall>calls store.
            this_polygons (fst (run lowPart calls (t, store))) = map Polygon_normalize raw \<and>
            this_pointCount (fst (run lowPart calls (t, store)))
              = sum_list (map (\<lambda>p. Polygon_getVertexCount (Polygon_normalize p)) raw))"
proof -
  have sum: "getPointCount (map Polygon_normalize raw)
      = sum_list (map (\<lambda>p. Polygon_getVertexCount (Polygon_normalize p)) raw)"
    by (simp add: getPointCount_eq comp_def)
  have "this_polygons (fst (run lowPart calls (t, store))) = this_polygons t \<and>
        this_pointCount (fst (run lowPart calls (t, store))) = this_pointCount t" for calls store
    using run_frame[of lowPart calls "(t, store)"] by simp
  then show ?thesis
    using constructed_fields[OF assms] by (simp add: sum)
qed

theorem pointCount_invariant_witness:
  "PolygonTesselator [SimpleRing example_triangle, RingsWithHoles [example_square, example_triangle]] None
     = Inr \<lparr>this_polygons = [[example_triangle], [example_square, example_triangle]],
            this_pointCount = 10, this_IndexType = None,
            this_attributes = Map.empty(''pickingColors'' \<mapsto>
              calculatePickingColors [[example_triangle], [example_square, example_triangle]] 10)\<rparr> \<and>
   this_pointCount (fst (run id [UpdatePositions True True, Colors None None, Indices]
      (\<lparr>this_polygons = [[example_triangle], [example_square, example_triangle]],
        this_pointCount = 10, this_IndexType = None,
        this_attributes = Map.empty(''pickingColors'' \<mapsto>
          calculatePickingColors [[example_triangle], [example_square, example_triangle]] 10)\<rparr>,
       \<lambda>a. [Number 0, Number 0, Number 0, Number 255]))) = 3 + (4 + 3) \<and>
   this_polygons (fst (run id [UpdatePositions True True, Colors None None, Indices]
      (\<lparr>this_polygons = [[example_triangle], [example_square, example_triangle]],
        this_pointCount = 10, this_IndexType = None,
        this_attributes = Map.empty(''pickingColors'' \<mapsto>
          calculatePickingColors [[example_triangle], [example_square, example_triangle]] 10)\<rparr>,
       \<lambda>a. [Number 0, Number 0, Number 0, Number 255])))
     = [[example_triangle], [example_square, example_triangle]]"
proof -
  have pc: "getPointCount [[example_triangle], [example_square, example_triangle]] = 10"
    by (simp add: getPointCount_eq Polygon_getVertexCount_def example_triangle_def example_square_def)
  have c: "PolygonTesselator [SimpleRing example_triangle, RingsWithHoles [example_square, example_triangle]] None
     = Inr \<lparr>this_polygons = [[example_triangle], [example_square, example_triangle]],
            this_pointCount = 10, this_IndexType = None,
            this_attributes = Map.empty(''pickingColors'' \<mapsto>
              calculatePickingColors [[example_triangle], [example_square, example_triangle]] 10)\<rparr>"
    by (simp add: PolygonTesselator_def Let_def pc)
  show ?thesis
    using pointCount_invariant[OF c, of id] c
    by (simp add: Polygon_getVertexCount_def example_triangle_def example_square_def)
qed

text \<open>
  C4, as amended. The constructor fails with the capacity error exactly when the index
  type is \<open>Uint16Array\<close> and the total vertex count exceeds 65535, and then before any
  buffer is built; for every other index type it makes no capacity check. No method
  replaces the polygon collection or the index type, so there is no later point at which
  the check would be made again.
\<close>

theorem capacity_check_uint16_only:
  "(PolygonTesselator raw IndexType = Inl VertexCountExceedsLimit)
     = (IndexType = Some Uint16Array \<and>
        65535 < sum_list (map (\<lambda>p. Polygon_getVertexCount (Polygon_normalize p)) raw)) \<and>
   this_polygons (fst (run lowPart calls (t, store))) = this_polygons t \<and>
   this_IndexType (fst (run lowPart calls (t, store))) = this_IndexType t"
  using run_frame[of lowPart calls "(t, store)"]
  by (simp add: PolygonTesselator_def Let_def getPointCount_eq comp_def)

text \<open>
  C4 as stated fails: 256 vertices exceed what an 8-bit index can address, and the
  constructor accepts them with \<open>Uint8Array\<close>.
\<close>

theorem capacity_check_counterexample:
  "2 ^ index_bits Uint8Array - 1
     < getPointCount (map Polygon_normalize [SimpleRing (example_ring_256)]) \<and>
   PolygonTesselator [SimpleRing (example_ring_256)] (Some Uint8Array)
     \<noteq> Inl VertexCountExceedsLimit"
  by (simp add: PolygonTesselator_def Let_def getPointCount_eq Polygon_getVertexCount_def)


section \<open>Picking colors\<close>

lemma and_255: "(n::int) AND 255 = n mod 256"
  using take_bit_eq_mask[of 8 n] by (simp add: take_bit_eq_mod mask_eq_exp_minus_1)

lemma decode_bytes:
  assumes "0 \<le> (n::int)" "n < 2 ^ 24"
  shows "(n AND 255) + 256 * (drop_bit 8 n AND 255) + 65536 * (drop_bit 16 n AND 255) = n"
proof -
  have a: "n div 65536 mod 256 = n div 65536" using assms by simp
  have b: "n div 256 mod 256 = (n mod 65536) div 256"
    using div_exp_mod_exp_eq[of n 8 8] by simp
  have c: "256 * ((n mod 65536) div 256) + n mod 256 = n mod 65536"
  proof -
    have "(n mod 65536) mod 256 = n mod 256"
      using mod_mod_cancel[of 256 65536 n] by simp
    then show ?thesis using mult_div_mod_eq[of 256 "n mod 65536"] by simp
  qed
  have d: "65536 * (n div 65536) + n mod 65536 = n"
    by (rule mult_div_mod_eq)
  have main: "n mod 256 + 256 * (n div 256 mod 256) + 65536 * (n div 65536 mod 256) = n"
    unfolding a b using c d by linarith
  have e2: "drop_bit 8 n AND 255 = n div 256 mod 256"
    by (simp add: and_255 drop_bit_eq_div)
  have e3: "drop_bit 16 n AND 255 = n div 65536 mod 256"
    by (simp add: and_255 drop_bit_eq_div)
  show ?thesis unfolding and_255[of n] e2 e3 by (rule main)
qed

lemma toUint8Clamped_byte:
  "0 \<le> n \<Longrightarrow> n \<le> 255 \<Longrightarrow> toUint8Clamped (Number (of_int n)) = Number (of_int n)"
  by (auto simp: toUint8Clamped_def)

lemma ToInt32_small: "0 \<le> n \<Longrightarrow> n < 2 ^ 31 \<Longrightarrow> ToInt32 n = n"
  by (simp add: ToInt32_def)

lemma byte_range: "0 \<le> (n::int) AND 255 \<and> n AND 255 \<le> 255"
  by (simp add: and_255)

text \<open>
  C5. For every polygon collection and every polygon index \<open>p\<close> in \<open>[0, 2^24 - 2]\<close>, the
  picking color stored at every vertex \<open>v\<close> of that polygon is
  \<open>(id & 0xFF, (id >> 8) & 0xFF, (id >> 16) & 0xFF)\<close> with \<open>id = p + 1\<close>, and
  \<open>byte0 + 256 * byte1 + 65536 * byte2\<close> gives \<open>p + 1\<close> back. The vertices of polygon
  \<open>p\<close> are those from the number of vertices before it up to, and without, that number
  plus its own vertex count.
\<close>

theorem picking_colors_decode:
  assumes p: "p < length polygons"
    and small: "p \<le> 2 ^ 24 - 2"
    and lo: "sum_list (map Polygon_getVertexCount (take p polygons)) \<le> v"
    and hi: "v < sum_list (map Polygon_getVertexCount (take p polygons)) + Polygon_getVertexCount (polygons ! p)"
  shows "cells (calculatePickingColors polygons (getPointCount polygons)) ! (3 * v)
           = Number (of_int ((int p + 1) AND 255)) \<and>
         cells (calculatePickingColors polygons (getPointCount polygons)) ! (3 * v + 1)
           = Number (of_int (drop_bit 8 (int p + 1) AND 255)) \<and>
         cells (calculatePickingColors polygons (getPointCount polygons)) ! (3 * v + 2)
           = Number (of_int (drop_bit 16 (int p + 1) AND 255)) \<and>
         ((int p + 1) AND 255) + 256 * (drop_bit 8 (int p + 1) AND 255)
           + 65536 * (drop_bit 16 (int p + 1) AND 255) = int p + 1"
proof -
  let ?ws = "concat (map (\<lambda>k. concat (replicate (Polygon_getVertexCount (polygons ! k)) (getPickingColor k)))
                    [0..<length polygons])"
  let ?off = "sum_list (map Polygon_getVertexCount (take p polygons))"
  have id: "0 \<le> int p + 1" "int p + 1 < 2 ^ 24" "int p + 1 < 2 ^ 31"
    using small by simp_all
  have lenws: "length ?ws = getPointCount polygons * 3"
  proof -
    have "length ?ws = sum_list (map (\<lambda>k. Polygon_getVertexCount (polygons ! k) * 3) [0..<length polygons])"
      by (simp add: length_concat comp_def sum_list_replicate)
    also have "\<dots> = sum_list (map (\<lambda>q. Polygon_getVertexCount q * 3) polygons)"
      by (subst (2) map_nth[symmetric, of polygons]) (simp only: map_map comp_def)
    also have "\<dots> = getPointCount polygons * 3"
      by (simp add: getPointCount_eq sum_list_mult_const)
    finally show ?thesis .
  qed
  have cells: "cells (calculatePickingColors polygons (getPointCount polygons)) = map toUint8Clamped ?ws"
    using lenws
    by (simp add: calculatePickingColors_ta_write cells_ta_write_all ta_new_def convert_def[abs_def])
  define j where "j = v - ?off"
  have v: "v = ?off + j" and j: "j < Polygon_getVertexCount (polygons ! p)"
    using lo hi by (simp_all add: j_def)
  have pat: "c < 3 \<Longrightarrow> ?ws ! (3 * v + c) = getPickingColor p ! c" for c
    using nth_fill_pattern[OF p _ j, of getPickingColor 3 c] by (simp add: v)
  have inb: "c < 3 \<Longrightarrow> 3 * v + c < length ?ws" for c
  proof -
    assume c: "c < 3"
    have "Suc v \<le> sum_list (map Polygon_getVertexCount polygons)"
      using hi prefix_le_total[OF p] by simp
    then have "3 * Suc v \<le> getPointCount polygons * 3"
      by (simp add: getPointCount_eq)
    then show ?thesis using c lenws by simp
  qed
  have cell: "c < 3 \<Longrightarrow>
      cells (calculatePickingColors polygons (getPointCount polygons)) ! (3 * v + c)
        = toUint8Clamped (getPickingColor p ! c)" for c
    using inb[of c] pat[of c] by (simp add: cells)
  have pc: "getPickingColor p =
      [Number (of_int ((int p + 1) AND 255)), Number (of_int (drop_bit 8 (int p + 1) AND 255)),
       Number (of_int (drop_bit 16 (int p + 1) AND 255))]"
    using id by (simp add: getPickingColor_def Let_def ToInt32_small)
  have c0: "cells (calculatePickingColors polygons (getPointCount polygons)) ! (3 * v)
           = Number (of_int ((int p + 1) AND 255))"
    using cell[of 0] byte_range[of "int p + 1"] by (simp add: pc toUint8Clamped_byte)
  have c1: "cells (calculatePickingColors polygons (getPointCount polygons)) ! (3 * v + 1)
           = Number (of_int (drop_bit 8 (int p + 1) AND 255))"
    using cell[of 1] byte_range[of "drop_bit 8 (int p + 1)"] by (simp add: pc toUint8Clamped_byte)
  have c2: "cells (calculatePickingColors polygons (getPointCount polygons)) ! (3 * v + 2)
           = Number (of_int (drop_bit 16 (int p + 1) AND 255))"
    using cell[of 2] byte_range[of "drop_bit 16 (int p + 1)"] by (simp add: pc toUint8Clamped_byte)
  show ?thesis using c0 c1 c2 decode_bytes[OF id(1) id(2)] by simp
qed

theorem picking_colors_decode_witness:
  "cells (calculatePickingColors [[example_triangle], [example_square]]
            (getPointCount [[example_triangle], [example_square]])) ! (3 * 4) = Number 2 \<and>
   cells (calculatePickingColors [[example_triangle], [example_square]]
            (getPointCount [[example_triangle], [example_square]])) ! (3 * 4 + 1) = Number 0 \<and>
   cells (calculatePickingColors [[example_triangle], [example_square]]
            (getPointCount [[example_triangle], [example_square]])) ! (3 * 4 + 2) = Number 0"
proof -
  let ?ps = "[[example_triangle], [example_square]]"
  have p: "1 < length ?ps" by simp
  have s: "(1::nat) \<le> 2 ^ 24 - 2" by simp
  have lo: "sum_list (map Polygon_getVertexCount (take 1 ?ps)) \<le> 4"
    by (simp add: Polygon_getVertexCount_def example_triangle_def)
  have hi: "4 < sum_list (map Polygon_getVertexCount (take 1 ?ps)) + Polygon_getVertexCount (?ps ! 1)"
    by (simp add: Polygon_getVertexCount_def example_triangle_def example_square_def)
  show ?thesis
    using picking_colors_decode[OF p s lo hi] by (simp add: and_255 drop_bit_eq_div)
qed

section \<open>Colors\<close>

lemma js_get_3_array_set: "js_get (array_set Undefined color 3 (Number 255)) 3 = Number 255"
  by (auto simp: js_get_def array_set_def nth_append)

lemma patch_alpha_idem [simp]: "patch_alpha (patch_alpha color) = patch_alpha color"
  by (simp add: patch_alpha_def js_get_3_array_set isNaN_def)

lemma patch_alpha_alpha:
  "isNaN (js_get color 3) \<Longrightarrow> patch_alpha color ! 3 = Number 255"
  using js_get_3_array_set[of color]
  by (auto simp: patch_alpha_def js_get_def array_set_def split: if_splits)

lemma patch_alpha_rgb:
  "c < 3 \<Longrightarrow> 3 \<le> length color \<Longrightarrow> patch_alpha color ! c = color ! c"
  by (auto simp: patch_alpha_def array_set_def nth_append)

lemma ta_write_append_at:
  "j = i + length ws \<Longrightarrow> ta_write (ta_write t i ws) j ws' = ta_write t i (ws @ ws')"
  by (simp add: ta_write_append)

lemma colors_step_eq:
  "colors_step getColor (k, q) (colors, i, store) =
     (ta_write colors i (concat (replicate (Polygon_getVertexCount q) (patch_alpha (store (getColor k))))),
      i + length (concat (replicate (Polygon_getVertexCount q) (patch_alpha (store (getColor k))))),
      store(getColor k := patch_alpha (store (getColor k))))"
  by (simp add: colors_step_def Let_def fillArray_ta_write patch_alpha_def mult.commute)

lemma colors_fold:
  "fold (colors_step getColor) (enumerate n ps) (colors, i, store) =
     (ta_write colors i
        (concat (map (\<lambda>(k, q). concat (replicate (Polygon_getVertexCount q) (patch_alpha (store (getColor k)))))
                     (enumerate n ps))),
      i + length (concat (map (\<lambda>(k, q). concat (replicate (Polygon_getVertexCount q) (patch_alpha (store (getColor k)))))
                     (enumerate n ps))),
      (\<lambda>a. if a \<in> getColor ` {n..<n + length ps} then patch_alpha (store a) else store a))"
proof (induction ps arbitrary: n colors i store)
  case Nil
  then show ?case by simp
next
  case (Cons q ps)
  let ?s = "store(getColor n := patch_alpha (store (getColor n)))"
  let ?b = "concat (replicate (Polygon_getVertexCount q) (patch_alpha (store (getColor n))))"
  have same: "patch_alpha (?s a) = patch_alpha (store a)" for a
    by simp
  have blocks: "map (\<lambda>(k, q). concat (replicate (Polygon_getVertexCount q) (patch_alpha (?s (getColor k)))))
                     (enumerate (Suc n) ps)
      = map (\<lambda>(k, q). concat (replicate (Polygon_getVertexCount q) (patch_alpha (store (getColor k)))))
                     (enumerate (Suc n) ps)"
    by (simp only: same)
  have st: "(\<lambda>a. if a \<in> getColor ` {Suc n..<Suc n + length ps} then patch_alpha (?s a) else ?s a)
      = (\<lambda>a. if a \<in> getColor ` {n..<n + length (q # ps)} then patch_alpha (store a) else store a)"
  proof
    fix a
    have "{n..<n + length (q # ps)} = insert n {Suc n..<Suc n + length ps}" by auto
    then show "(if a \<in> getColor ` {Suc n..<Suc n + length ps} then patch_alpha (?s a) else ?s a)
      = (if a \<in> getColor ` {n..<n + length (q # ps)} then patch_alpha (store a) else store a)"
      by (auto simp: same)
  qed
  have "fold (colors_step getColor) (enumerate n (q # ps)) (colors, i, store)
      = fold (colors_step getColor) (enumerate (Suc n) ps) (ta_write colors i ?b, i + length ?b, ?s)"
    by (simp add: colors_step_eq)
  also have "\<dots> = (ta_write (ta_write colors i ?b) (i + length ?b)
        (concat (map (\<lambda>(k, q). concat (replicate (Polygon_getVertexCount q) (patch_alpha (?s (getColor k)))))
                     (enumerate (Suc n) ps))),
      i + length ?b + length (concat (map (\<lambda>(k, q). concat (replicate (Polygon_getVertexCount q) (patch_alpha (?s (getColor k)))))
                     (enumerate (Suc n) ps))),
      (\<lambda>a. if a \<in> getColor ` {Suc n..<Suc n + length ps} then patch_alpha (?s a) else ?s a))"
    by (rule Cons.IH)
  also have "\<dots> = (ta_write colors i
        (concat (map (\<lambda>(k, q). concat (replicate (Polygon_getVertexCount q) (patch_alpha (store (getColor k)))))
                     (enumerate n (q # ps)))),
      i + length (concat (map (\<lambda>(k, q). concat (replicate (Polygon_getVertexCount q) (patch_alpha (store (getColor k)))))
                     (enumerate n (q # ps)))),
      (\<lambda>a. if a \<in> getColor ` {n..<n + length (q # ps)} then patch_alpha (store a) else store a))"
    unfolding blocks st by (simp add: ta_write_append_at)
  finally show ?case .
qed

lemma updateColors_eq:
  "updateColors cache polygons pointCount getColor store =
     (ta_write (case cache of Some c \<Rightarrow> c | None \<Rightarrow> ta_new Uint8Clamped (pointCount * 4)) 0
        (concat (map (\<lambda>k. concat (replicate (Polygon_getVertexCount (polygons ! k))
                                      (patch_alpha (store (getColor k)))))
                     [0..<length polygons])),
      (\<lambda>a. if a \<in> getColor ` {0..<length polygons} then patch_alpha (store a) else store a))"
proof -
  have "updateColors cache polygons pointCount getColor store =
      (let (colors, i, store) = fold (colors_step getColor) (enumerate 0 polygons)
          (case cache of Some c \<Rightarrow> c | None \<Rightarrow> ta_new Uint8Clamped (pointCount * 4), 0, store)
       in (colors, store))"
    by (simp add: updateColors_def colors_step_def Let_def)
  then show ?thesis
    by (simp add: colors_fold map_enumerate_nth)
qed

lemma length_patch_alpha_contract:
  "length color \<le> 4 \<Longrightarrow> length (patch_alpha color) = 4"
  by (auto simp: patch_alpha_def array_set_def js_get_def isNaN_def)

lemma convert_byte:
  "0 \<le> n \<Longrightarrow> n \<le> 255 \<Longrightarrow> convert k (Number (of_int n)) = Number (of_int n)"
  by (cases k) (simp_all add: convert_def toFloat32_small_int toUint8Clamped_byte)

lemma convert_255 [simp]: "convert k (Number 255) = Number 255"
  using convert_byte[of 255 k] by simp

lemma nth_cells_ta_write:
  "n < length ws \<Longrightarrow> length ws \<le> length (cells t) \<Longrightarrow>
   cells (ta_write t 0 ws) ! n = convert (kind t) (ws ! n)"
  by (simp add: ta_write_def nth_write_seq)

lemma length_fill_pattern:
  assumes "\<forall>k<length polygons. length (pat k) = m"
  shows "length (concat (map (\<lambda>k. concat (replicate (Polygon_getVertexCount (polygons ! k)) (pat k)))
                             [0..<length polygons])) = getPointCount polygons * m"
proof -
  have "length (concat (map (\<lambda>k. concat (replicate (Polygon_getVertexCount (polygons ! k)) (pat k)))
                             [0..<length polygons]))
      = sum_list (map (\<lambda>k. Polygon_getVertexCount (polygons ! k) * length (pat k)) [0..<length polygons])"
    by (simp add: length_concat comp_def sum_list_replicate)
  also have "\<dots> = sum_list (map (\<lambda>k. Polygon_getVertexCount (polygons ! k) * m) [0..<length polygons])"
    using assms by (intro arg_cong[where f = sum_list] map_cong) simp_all
  also have "\<dots> = sum_list (map (\<lambda>q. Polygon_getVertexCount q * m) polygons)"
    by (subst (2) map_nth[symmetric, of polygons]) (simp only: map_map comp_def)
  also have "\<dots> = getPointCount polygons * m"
    by (simp add: getPointCount_eq sum_list_mult_const)
  finally show ?thesis .
qed

lemma vertex_slot_in_range:
  assumes p: "p < length polygons"
    and hi: "v < sum_list (map Polygon_getVertexCount (take p polygons)) + Polygon_getVertexCount (polygons ! p)"
    and c: "c < m"
  shows "m * v + c < getPointCount polygons * m"
proof -
  have "Suc v \<le> getPointCount polygons"
    using hi prefix_le_total[OF p] by (simp add: getPointCount_eq)
  then have "m * Suc v \<le> m * getPointCount polygons" by (rule mult_le_mono2)
  then show ?thesis using c by (simp add: mult.commute)
qed

text \<open>
  C9. When the color accessor returns, for a polygon, a value whose fourth (alpha)
  component is not-a-number, the alpha stored in the color buffer is 255 at every vertex
  of that polygon, and the first three components are stored as returned: as the
  buffer's element type converts them, and unchanged when they are bytes. The accessor
  is taken to keep its contract, an array \<open>[r, g, b]\<close> or \<open>[r, g, b, a]\<close> for every
  polygon, and a reused buffer to have room for four cells per vertex.
\<close>

theorem updateColors_alpha_default:
  assumes k: "k < length polygons"
    and nan: "isNaN (js_get (store (getColor k)) 3)"
    and contract: "\<forall>q<length polygons. 3 \<le> length (store (getColor q)) \<and> length (store (getColor q)) \<le> 4"
    and cache: "case cache of None \<Rightarrow> True | Some b \<Rightarrow> getPointCount polygons * 4 \<le> length (cells b)"
    and lo: "sum_list (map Polygon_getVertexCount (take k polygons)) \<le> v"
    and hi: "v < sum_list (map Polygon_getVertexCount (take k polygons)) + Polygon_getVertexCount (polygons ! k)"
  shows "cells (fst (updateColors cache polygons (getPointCount polygons) getColor store)) ! (4 * v + 3)
           = Number 255 \<and>
         (\<forall>c<3. cells (fst (updateColors cache polygons (getPointCount polygons) getColor store)) ! (4 * v + c)
                  = convert (kind (fst (updateColors cache polygons (getPointCount polygons) getColor store)))
                      (store (getColor k) ! c)) \<and>
         (\<forall>c<3. \<forall>n. 0 \<le> n \<and> n \<le> 255 \<and> store (getColor k) ! c = Number (of_int n) \<longrightarrow>
            cells (fst (updateColors cache polygons (getPointCount polygons) getColor store)) ! (4 * v + c)
              = store (getColor k) ! c)"
proof -
  let ?pat = "\<lambda>q. patch_alpha (store (getColor q))"
  let ?ws = "concat (map (\<lambda>q. concat (replicate (Polygon_getVertexCount (polygons ! q)) (?pat q)))
                     [0..<length polygons])"
  let ?b = "case cache of Some c \<Rightarrow> c | None \<Rightarrow> ta_new Uint8Clamped (getPointCount polygons * 4)"
  let ?colors = "fst (updateColors cache polygons (getPointCount polygons) getColor store)"
  have m: "\<forall>q<length polygons. length (?pat q) = 4"
    using contract by (simp add: length_patch_alpha_contract)
  have lenws: "length ?ws = getPointCount polygons * 4"
    using m by (rule length_fill_pattern)
  have lenb: "length ?ws \<le> length (cells ?b)"
    using cache by (simp add: lenws ta_new_def split: option.splits)
  have colors: "?colors = ta_write ?b 0 ?ws"
    by (simp add: updateColors_eq)
  define j where "j = v - sum_list (map Polygon_getVertexCount (take k polygons))"
  have v: "v = sum_list (map Polygon_getVertexCount (take k polygons)) + j"
    and j: "j < Polygon_getVertexCount (polygons ! k)"
    using lo hi by (simp_all add: j_def)
  have cell: "c < 4 \<Longrightarrow> cells ?colors ! (4 * v + c) = convert (kind ?colors) (?pat k ! c)" for c
  proof -
    assume c: "c < 4"
    have inb: "4 * v + c < length ?ws"
      using vertex_slot_in_range[OF k hi c] by (simp add: lenws)
    have "?ws ! (4 * v + c) = ?pat k ! c"
      using nth_fill_pattern[OF k m j c] by (simp add: v)
    then show ?thesis
      using nth_cells_ta_write[OF inb lenb] by (simp add: colors)
  qed
  have len3: "3 \<le> length (store (getColor k))" using contract k by simp
  have alpha: "cells ?colors ! (4 * v + 3) = Number 255"
    using cell[of 3] patch_alpha_alpha[OF nan] by simp
  have rgb: "\<forall>c<3. cells ?colors ! (4 * v + c) = convert (kind ?colors) (store (getColor k) ! c)"
    using cell patch_alpha_rgb[OF _ len3] by simp
  have exact: "\<forall>c<3. \<forall>n. 0 \<le> n \<and> n \<le> 255 \<and> store (getColor k) ! c = Number (of_int n) \<longrightarrow>
            cells ?colors ! (4 * v + c) = store (getColor k) ! c"
    using rgb by (simp add: convert_byte)
  show ?thesis using alpha rgb exact by simp
qed


theorem updateColors_alpha_default_witness:
  "cells (fst (updateColors None [[example_triangle], [example_square]]
                 (getPointCount [[example_triangle], [example_square]]) (\<lambda>k. k) example_store))
     ! (4 * 4 + 3) = Number 255 \<and>
   cells (fst (updateColors None [[example_triangle], [example_square]]
                 (getPointCount [[example_triangle], [example_square]]) (\<lambda>k. k) example_store))
     ! (4 * 4 + 0) = Number 1"
proof -
  let ?ps = "[[example_triangle], [example_square]]"
  have k: "1 < length ?ps" by simp
  have nan: "isNaN (js_get (example_store ((\<lambda>k. k) 1)) 3)"
    by (simp add: example_store_def js_get_def isNaN_def)
  have contract: "\<forall>q<length ?ps. 3 \<le> length (example_store ((\<lambda>k. k) q)) \<and>
                    length (example_store ((\<lambda>k. k) q)) \<le> 4"
    by (simp add: example_store_def)
  have cache: "case None of None \<Rightarrow> True | Some b \<Rightarrow> getPointCount ?ps * 4 \<le> length (cells b)"
    by simp
  have lo: "sum_list (map Polygon_getVertexCount (take 1 ?ps)) \<le> 4"
    by (simp add: Polygon_getVertexCount_def example_triangle_def)
  have hi: "4 < sum_list (map Polygon_getVertexCount (take 1 ?ps)) + Polygon_getVertexCount (?ps ! 1)"
    by (simp add: Polygon_getVertexCount_def example_triangle_def example_square_def)
  note t = updateColors_alpha_default[OF k nan contract cache lo hi]
  have red: "example_store ((\<lambda>k. k) 1) ! 0 = Number (of_int 1)"
    by (simp add: example_store_def)
  show ?thesis
    using t[THEN conjunct1] t[THEN conjunct2, THEN conjunct2, rule_format, of 0 1] red
    by simp
qed


text \<open>
  C10. When the color accessor returns, for a polygon, an array whose fourth (alpha)
  component is not-a-number, \<open>updateColors\<close> stores 255 at index 3 of that very array,
  in the caller's store, before it replicates it: the array the caller holds afterwards
  differs from the one it gave, and the buffer holds copies of the arrays as they are
  after the call.
\<close>

theorem updateColors_mutates_caller_array:
  assumes k: "k < length polygons"
    and nan: "isNaN (js_get (store (getColor k)) 3)"
  shows "snd (updateColors cache polygons pointCount getColor store) (getColor k)
           = array_set Undefined (store (getColor k)) 3 (Number 255) \<and>
         js_get (snd (updateColors cache polygons pointCount getColor store) (getColor k)) 3 = Number 255 \<and>
         snd (updateColors cache polygons pointCount getColor store) (getColor k) \<noteq> store (getColor k) \<and>
         fst (updateColors cache polygons pointCount getColor store)
           = ta_write (case cache of Some c \<Rightarrow> c | None \<Rightarrow> ta_new Uint8Clamped (pointCount * 4)) 0
               (concat (map (\<lambda>q. concat (replicate (Polygon_getVertexCount (polygons ! q))
                                     (snd (updateColors cache polygons pointCount getColor store) (getColor q))))
                            [0..<length polygons]))"
proof -
  let ?s = "snd (updateColors cache polygons pointCount getColor store)"
  have at: "q < length polygons \<Longrightarrow> ?s (getColor q) = patch_alpha (store (getColor q))" for q
    by (simp add: updateColors_eq)
  have a: "?s (getColor k) = array_set Undefined (store (getColor k)) 3 (Number 255)"
    using at[OF k] nan by (simp add: patch_alpha_def)
  have b: "js_get (?s (getColor k)) 3 = Number 255"
    by (simp only: a js_get_3_array_set)
  have c: "?s (getColor k) \<noteq> store (getColor k)"
    using b nan by (auto simp: isNaN_def)
  have d: "fst (updateColors cache polygons pointCount getColor store)
           = ta_write (case cache of Some c \<Rightarrow> c | None \<Rightarrow> ta_new Uint8Clamped (pointCount * 4)) 0
               (concat (map (\<lambda>q. concat (replicate (Polygon_getVertexCount (polygons ! q)) (?s (getColor q))))
                            [0..<length polygons]))"
  proof -
    have mapeq: "map (\<lambda>q. concat (replicate (Polygon_getVertexCount (polygons ! q)) (?s (getColor q)))) [0..<length polygons]
        = map (\<lambda>q. concat (replicate (Polygon_getVertexCount (polygons ! q)) (patch_alpha (store (getColor q))))) [0..<length polygons]"
      by (intro map_cong) (simp_all add: at)
    have e: "fst (updateColors cache polygons pointCount getColor store)
           = ta_write (case cache of Some c \<Rightarrow> c | None \<Rightarrow> ta_new Uint8Clamped (pointCount * 4)) 0
               (concat (map (\<lambda>q. concat (replicate (Polygon_getVertexCount (polygons ! q))
                                     (patch_alpha (store (getColor q))))) [0..<length polygons]))"
      by (simp add: updateColors_eq)
    show ?thesis by (simp only: mapeq e)
  qed
  show ?thesis using a b c d by simp
qed

theorem updateColors_mutates_caller_array_witness:
  "snd (updateColors None [[example_triangle], [example_square]] 7 (\<lambda>k. k) example_store) 1
     = [Number 1, Number 2, Number 3, Number 255] \<and>
   example_store 1 = [Number 1, Number 2, Number 3, NaN]"
proof -
  let ?ps = "[[example_triangle], [example_square]]"
  have k: "1 < length ?ps" by simp
  have nan: "isNaN (js_get (example_store ((\<lambda>k. k) 1)) 3)"
    by (simp add: example_store_def js_get_def isNaN_def)
  show ?thesis
    using updateColors_mutates_caller_array[where k = 1 and polygons = ?ps and getColor = "\<lambda>k. k"
            and store = example_store and cache = None and pointCount = 7, THEN conjunct1] k nan
    by (simp add: example_store_def array_set_def)
qed

section \<open>Positions and next positions\<close>

lemma three_stores:
  "ta_set (ta_set (ta_set t k x) (k + 1) y) (k + 2) z = ta_write t k [x, y, z]"
proof -
  have "ta_write (ta_write (ta_write t k [x]) (k + length [x]) [y]) (k + length [x, y]) [z]
      = ta_write t k [x, y, z]"
    by (simp only: ta_write_append append.simps)
  then show ?thesis by (simp add: ta_set_ta_write)
qed

lemma three_stores_Suc:
  "ta_set (ta_set (ta_set t k x) (Suc k) y) (Suc (Suc k)) z = ta_write t k [x, y, z]"
  using three_stores[of t k x y z] by simp

lemma pos_of_visitVertex:
  "pos_of (visitVertex lowPart extruded fp64 (v, idx) s) =
     (ta_write (fst (pos_of s)) (snd (pos_of s)) (vertex_xyz v), snd (pos_of s) + 3)"
  by (cases s)
     (simp add: pos_of_def visitVertex_def Let_def three_stores_Suc vertex_xyz_def split: prod.splits)

lemma next_of_visitVertex:
  "next_of (visitVertex lowPart True fp64 vi s) = next_step vi (next_of s)"
  by (cases s; cases vi)
     (auto simp: next_of_def visitVertex_def Let_def three_stores_Suc vertex_xyz_def next_step_def
        popStartVertex_def pushStartVertex_def split: prod.splits option.splits)

lemma fold_project:
  assumes "\<And>x s. pr (f x s) = g x (pr s)"
  shows "pr (fold f xs s) = fold g xs (pr s)"
  by (induction xs arbitrary: s) (simp_all add: assms)

lemma traversal_flat:
  "fold (\<lambda>(polygonIndex, polygon). fold V (Polygon_forEachVertex polygon)) (enumerate n ps) s
     = fold V (concat (map Polygon_forEachVertex ps)) s"
  by (induction ps arbitrary: n s) simp_all

lemma all_visits:
  "concat (map Polygon_forEachVertex ps) = concat (map (\<lambda>r. zip r [0..<length r]) (map concat ps))"
  by (induction ps) (simp_all add: Polygon_forEachVertex_def)

lemma all_vertices: "concat (map concat ps) = concat (concat ps)"
  by (induction ps) simp_all

lemma all_visited: "map fst (concat (map Polygon_forEachVertex ps)) = concat (concat ps)"
  by (induction ps) (simp_all add: Polygon_forEachVertex_def)

lemma pos_of_fold:
  "pos_of (fold (visitVertex lowPart extruded fp64) xs s) =
     (ta_write (fst (pos_of s)) (snd (pos_of s)) (concat (map vertex_xyz (map fst xs))),
      snd (pos_of s) + length (concat (map vertex_xyz (map fst xs))))"
proof -
  let ?g = "\<lambda>vi (t, j). (ta_write t j (vertex_xyz (fst vi)), j + length (vertex_xyz (fst vi)))"
  have "pos_of (fold (visitVertex lowPart extruded fp64) xs s) = fold ?g xs (pos_of s)"
    by (rule fold_project) (auto simp: pos_of_visitVertex vertex_xyz_def split: prod.splits)
  also have "\<dots> = fold ?g xs (fst (pos_of s), snd (pos_of s))" by simp
  also have "\<dots> = (ta_write (fst (pos_of s)) (snd (pos_of s)) (concat (map (\<lambda>vi. vertex_xyz (fst vi)) xs)),
      snd (pos_of s) + length (concat (map (\<lambda>vi. vertex_xyz (fst vi)) xs)))"
    by (rule fold_ta_write) simp
  finally show ?thesis by (simp add: comp_def)
qed

lemma next_of_fold:
  "next_of (fold (visitVertex lowPart True fp64) xs s) = fold next_step xs (next_of s)"
  by (rule fold_project) (rule next_of_visitVertex)

text \<open>The vertices of a ring after the first one.\<close>

lemma next_step_tail:
  "0 < k \<Longrightarrow>
   fold next_step (zip vs [k..<k + length vs]) (n, ni, start) =
     (ta_write n (ni * 3) (concat (map vertex_xyz vs)), ni + length vs, start)"
proof (induction vs arbitrary: k n ni)
  case Nil
  then show ?case by simp
next
  case (Cons v vs)
  have "[k..<k + length (v # vs)] = k # [Suc k..<Suc k + length vs]"
    by (simp add: upt_conv_Cons del: upt_Suc)
  then have z: "zip (v # vs) [k..<k + length (v # vs)] = (v, k) # zip vs [Suc k..<Suc k + length vs]"
    by (simp only: zip_Cons_Cons)
  have l: "length (vertex_xyz v) = 3" by (simp add: vertex_xyz_def)
  show ?case
    unfolding z using Cons.prems Cons.IH[of "Suc k" "ta_write n (ni * 3) (vertex_xyz v)" "Suc ni"]
    by (simp add: next_step_def ta_write_append_at l)
qed

lemma next_step_ring:
  assumes "next_ok t"
  shows "next_flush (fold next_step (zip r [0..<length r]) t)
           = ta_write (next_flush t) (next_len t) (concat (map vertex_xyz (rotate1 r))) \<and>
         next_len (fold next_step (zip r [0..<length r]) t) = next_len t + 3 * length r \<and>
         next_ok (fold next_step (zip r [0..<length r]) t)"
proof (cases r)
  case Nil
  then show ?thesis using assms by simp
next
  case (Cons v vs)
  obtain n ni start where t: "t = (n, ni, start)" by (cases t)
  have "[0..<length r] = 0 # [1..<1 + length vs]"
    by (simp add: Cons upt_conv_Cons del: upt_Suc)
  then have z: "zip r [0..<length r] = (v, 0) # zip vs [1..<1 + length vs]"
    by (simp only: Cons zip_Cons_Cons)
  have l: "length (vertex_xyz v) = 3" by (simp add: vertex_xyz_def)
  have lc: "length (concat (map vertex_xyz vs)) = 3 * length vs"
    by (induction vs) (simp_all add: vertex_xyz_def)
  show ?thesis
  proof (cases start)
    case None
    have "fold next_step (zip r [0..<length r]) t
        = (ta_write n (ni * 3) (concat (map vertex_xyz vs)), ni + length vs, Some (vertex_xyz v))"
      unfolding z t None using next_step_tail[of 1 vs n ni "Some (vertex_xyz v)"]
      by (simp add: next_step_def)
    then show ?thesis
      by (simp add: t None Cons next_flush_def next_len_def next_ok_def l lc
            ta_write_append_at add_mult_distrib)
  next
    case (Some s)
    have ls: "length s = 3" using assms by (simp add: t Some next_ok_def)
    have "fold next_step (zip r [0..<length r]) t
        = (ta_write (ta_write n (ni * 3) s) (Suc ni * 3) (concat (map vertex_xyz vs)),
           Suc ni + length vs, Some (vertex_xyz v))"
      unfolding z t Some using next_step_tail[of 1 vs "ta_write n (ni * 3) s" "Suc ni" "Some (vertex_xyz v)"]
      by (simp add: next_step_def)
    then show ?thesis
      by (simp add: t Some Cons next_flush_def next_len_def next_ok_def l lc ls
            ta_write_append_at add_mult_distrib)
  qed
qed

lemma next_step_rings:
  assumes "next_ok t"
  shows "next_flush (fold next_step (concat (map (\<lambda>r. zip r [0..<length r]) rs)) t)
           = ta_write (next_flush t) (next_len t) (concat (map vertex_xyz (concat (map rotate1 rs)))) \<and>
         next_ok (fold next_step (concat (map (\<lambda>r. zip r [0..<length r]) rs)) t)"
  using assms
proof (induction rs arbitrary: t)
  case Nil
  then show ?case by simp
next
  case (Cons r rs)
  let ?t = "fold next_step (zip r [0..<length r]) t"
  note ring = next_step_ring[OF Cons.prems, of r]
  have lr: "length (concat (map vertex_xyz (rotate1 r))) = 3 * length r"
  proof -
    have "length (concat (map vertex_xyz xs)) = 3 * length xs" for xs
      by (induction xs) (simp_all add: vertex_xyz_def)
    from this[of "rotate1 r"] show ?thesis by simp
  qed
  have ok: "next_ok ?t" using ring by simp
  show ?case
    using Cons.IH[OF ok] ring
    by (simp add: ta_write_append_at lr)
qed

lemma fst_popStartVertex:
  "fst (popStartVertex fp64 (n, nl, ni, sv))
     = next_flush (n, ni, map_option (\<lambda>(x, y, z, xLow, yLow). [x, y, z]) sv)"
  by (cases sv) (auto simp: popStartVertex_def next_flush_def three_stores_Suc)

lemma pos_of_tuple: "pos_of (p, pl, n, nl, i, ni, sv) = (p, i * 3)"
  by (simp add: pos_of_def)

lemma next_of_tuple:
  "next_of (p, pl, n, nl, i, ni, sv) = (n, ni, map_option (\<lambda>(x, y, z, xLow, yLow). [x, y, z]) sv)"
  by (simp add: next_of_def)

lemma updatePositions_positions:
  "cache_positions (updatePositions lowPart cache ps extruded fp64)
     = ta_write (cache_positions cache) 0 (concat (map vertex_xyz (concat (concat ps))))"
proof -
  let ?s0 = "(cache_positions cache, cache_positions64xyLow cache, cache_nextPositions cache,
              cache_nextPositions64xyLow cache, 0::nat, 0::nat, None :: start_vertex option)"
  let ?xs = "concat (map Polygon_forEachVertex ps)"
  obtain p pl n nl i ni sv where s: "fold (visitVertex lowPart extruded fp64) ?xs ?s0 = (p, pl, n, nl, i, ni, sv)"
    by (cases "fold (visitVertex lowPart extruded fp64) ?xs ?s0")
  have "pos_of (fold (visitVertex lowPart extruded fp64) ?xs ?s0)
      = (ta_write (cache_positions cache) 0 (concat (map vertex_xyz (map fst ?xs))),
         length (concat (map vertex_xyz (map fst ?xs))))"
    using pos_of_fold[of lowPart extruded fp64 ?xs ?s0] by (simp add: pos_of_tuple)
  then have "p = ta_write (cache_positions cache) 0 (concat (map vertex_xyz (concat (concat ps))))"
    unfolding s pos_of_tuple by (simp add: all_visited)
  then show ?thesis
    by (simp add: updatePositions_def traversal_flat s split: prod.splits)
qed

lemma updatePositions_nextPositions:
  "cache_nextPositions (updatePositions lowPart cache ps True fp64)
     = ta_write (cache_nextPositions cache) 0
         (concat (map vertex_xyz (concat (map rotate1 (map concat ps)))))"
proof -
  let ?s0 = "(cache_positions cache, cache_positions64xyLow cache, cache_nextPositions cache,
              cache_nextPositions64xyLow cache, 0::nat, 0::nat, None :: start_vertex option)"
  let ?xs = "concat (map Polygon_forEachVertex ps)"
  obtain p pl n nl i ni sv where s: "fold (visitVertex lowPart True fp64) ?xs ?s0 = (p, pl, n, nl, i, ni, sv)"
    by (cases "fold (visitVertex lowPart True fp64) ?xs ?s0")
  let ?t0 = "(cache_nextPositions cache, 0::nat, None :: jsval list option)"
  have ok: "next_ok ?t0" by (simp add: next_ok_def)
  have "next_of (fold (visitVertex lowPart True fp64) ?xs ?s0) = fold next_step ?xs ?t0"
    by (simp add: next_of_fold next_of_tuple)
  then have "next_flush (n, ni, map_option (\<lambda>(x, y, z, xLow, yLow). [x, y, z]) sv)
      = next_flush (fold next_step ?xs ?t0)"
    unfolding s next_of_tuple by simp
  also have "\<dots> = ta_write (next_flush ?t0) (next_len ?t0)
                     (concat (map vertex_xyz (concat (map rotate1 (map concat ps)))))"
    unfolding all_visits using next_step_rings[OF ok, of "map concat ps"] by simp
  finally have "fst (popStartVertex fp64 (n, nl, ni, sv))
      = ta_write (cache_nextPositions cache) 0
          (concat (map vertex_xyz (concat (map rotate1 (map concat ps)))))"
    by (simp add: fst_popStartVertex next_flush_def next_len_def)
  then show ?thesis
    by (auto simp: updatePositions_def traversal_flat s split: prod.splits)
qed

lemma tesselator_positions:
  "this_attributes (tesselator_updatePositions lowPart fp64 extruded t) ''positions''
     = Some (ta_write (buffer_or_new t ''positions'') 0
               (concat (map vertex_xyz (concat (concat (this_polygons t))))))"
  by (simp add: tesselator_updatePositions_def Let_def updatePositions_positions buffer_or_new_def)

lemma tesselator_nextPositions:
  "this_attributes (tesselator_updatePositions lowPart fp64 True t) ''nextPositions''
     = Some (ta_write (buffer_or_new t ''nextPositions'') 0
               (concat (map vertex_xyz (concat (map rotate1 (map concat (this_polygons t)))))))"
  by (simp add: tesselator_updatePositions_def Let_def updatePositions_nextPositions buffer_or_new_def)

lemma length_concat_xyz [simp]: "length (concat (map vertex_xyz vs)) = 3 * length vs"
  by (induction vs) (simp_all add: vertex_xyz_def)

lemma length_all_vertices: "length (concat (concat ps)) = getPointCount ps"
  by (induction ps) (simp_all add: getPointCount_eq Polygon_getVertexCount_def length_concat)

lemma length_rotated: "length (concat (map rotate1 rs)) = length (concat rs)"
  by (induction rs) simp_all

lemma nth_concat_xyz:
  "a < length vs \<Longrightarrow> c < 3 \<Longrightarrow> concat (map vertex_xyz vs) ! (3 * a + c) = vertex_xyz (vs ! a) ! c"
proof (induction vs arbitrary: a)
  case Nil
  then show ?case by simp
next
  case (Cons v vs)
  have l: "length (vertex_xyz v) = 3" by (simp add: vertex_xyz_def)
  show ?case
  proof (cases a)
    case 0
    with Cons.prems show ?thesis by (simp add: nth_append l)
  next
    case (Suc b)
    with Cons.prems Cons.IH[of b] show ?thesis by (simp add: nth_append l)
  qed
qed

lemma vertex_xyz_numeric:
  assumes "length v = 2 \<or> length v = 3" and "list_all (\<lambda>c. \<not> isNaN c) v"
  shows "map toFloat32 (vertex_xyz v)
           = [toFloat32 (v ! 0), toFloat32 (v ! 1), if length v = 2 then Number 0 else toFloat32 (v ! 2)]"
proof -
  have num: "\<not> isNaN c \<Longrightarrow> js_or c (Number 0) = c" for c
    by (cases c) (simp_all add: isNaN_def js_or_def falsy_def)
  from assms(1) show ?thesis
  proof
    assume "length v = 2"
    then obtain a b where v: "v = [a, b]"
      by (auto simp: numeral_2_eq_2 length_Suc_conv)
    show ?thesis
      by (simp add: v vertex_xyz_def js_get_def js_or_def falsy_def toFloat32_examples)
  next
    assume "length v = 3"
    then obtain a b c where v: "v = [a, b, c]"
      by (auto simp: numeral_3_eq_3 length_Suc_conv)
    show ?thesis using assms(2) num[of c]
      by (simp add: v vertex_xyz_def js_get_def)
  qed
qed

lemma cells_fresh_or_cached:
  assumes "case this_attributes t key of None \<Rightarrow> True
           | Some b \<Rightarrow> kind b = Float32 \<and> length (cells b) = this_pointCount t * 3"
    and "length ws = this_pointCount t * 3"
  shows "cells (ta_write (buffer_or_new t key) 0 ws) = map toFloat32 ws"
proof -
  have k: "kind (buffer_or_new t key) = Float32"
    and l: "length (cells (buffer_or_new t key)) = this_pointCount t * 3"
    using assms(1) by (simp_all add: buffer_or_new_def ta_new_def split: option.splits)
  show ?thesis using assms(2) k l by (simp add: cells_ta_write_all convert_def[abs_def])
qed


lemma take_concat_blocks:
  "p < length bs \<Longrightarrow> r \<le> length (bs ! p) \<Longrightarrow>
   take (length (concat (take p bs)) + r) (concat bs) = concat (take p bs) @ take r (bs ! p)"
proof (induction bs arbitrary: p)
  case Nil
  then show ?case by simp
next
  case (Cons b bs)
  show ?case
  proof (cases p)
    case 0
    with Cons.prems show ?thesis by simp
  next
    case (Suc q)
    with Cons.prems Cons.IH[of q] show ?thesis by (simp add: add.assoc)
  qed
qed

lemma nth_concat_at:
  "p < length bs \<Longrightarrow> i < length (bs ! p) \<Longrightarrow>
   concat bs ! (length (concat (take p bs)) + i) = bs ! p ! i"
  using nth_concat_blocks[of p bs i] by (simp add: length_concat)

lemma length_concat_take_rotated:
  "length (concat (take q (map rotate1 rs))) = length (concat (take q rs))"
  by (simp add: take_map length_rotated)

text \<open>A vertex and its successor in the sequence of the rotated rings.\<close>

lemma rotated_vertex:
  assumes q: "q < length rs" and j: "j < length (rs ! q)"
  shows "concat (map rotate1 rs) ! (length (concat (take q rs)) + j)
           = rs ! q ! (Suc j mod length (rs ! q))"
    and "concat rs ! (length (concat (take q rs)) + j) = rs ! q ! j"
    and "length (concat (take q rs)) + j < length (concat rs)"
proof -
  have "concat (map rotate1 rs) ! (length (concat (take q (map rotate1 rs))) + j) = map rotate1 rs ! q ! j"
    using q j by (intro nth_concat_at) simp_all
  then show "concat (map rotate1 rs) ! (length (concat (take q rs)) + j)
           = rs ! q ! (Suc j mod length (rs ! q))"
    using q j by (simp add: length_concat_take_rotated nth_rotate1)
  show "concat rs ! (length (concat (take q rs)) + j) = rs ! q ! j"
    using q j by (rule nth_concat_at)
  have "take (length (concat (take q rs)) + Suc j) (concat rs) = concat (take q rs) @ take (Suc j) (rs ! q)"
    using q j by (intro take_concat_blocks) simp_all
  then have "length (take (length (concat (take q rs)) + Suc j) (concat rs))
      = length (concat (take q rs)) + Suc j"
    using j by simp
  then show "length (concat (take q rs)) + j < length (concat rs)" by simp
qed

lemma example_tesselator_constructed:
  "PolygonTesselator [RingsWithHoles [example_outer, example_hole]] None = Inr example_tesselator"
proof -
  have pc: "getPointCount [[example_outer, example_hole]] = 7"
    by (simp add: getPointCount_eq Polygon_getVertexCount_def example_outer_def example_hole_def)
  show ?thesis
    by (simp add: PolygonTesselator_def Let_def pc example_tesselator_def)
qed

lemma example_wide_tesselator_constructed:
  "PolygonTesselator [SimpleRing example_wide] None = Inr example_wide_tesselator"
proof -
  have pc: "getPointCount [[example_wide]] = 3"
    by (simp add: getPointCount_eq Polygon_getVertexCount_def example_wide_def)
  show ?thesis
    by (simp add: PolygonTesselator_def Let_def pc example_wide_tesselator_def)
qed


lemma next_shape_visitVertex:
  "next_shape (visitVertex lowPart extruded fp64 vi s) = next_shape s"
  by (cases s; cases vi)
     (auto simp: next_shape_def visitVertex_def Let_def three_stores_Suc popStartVertex_def
        pushStartVertex_def split: prod.splits option.splits)

lemma next_shape_fold:
  "next_shape (fold (visitVertex lowPart extruded fp64) xs s) = next_shape s"
  by (induction xs arbitrary: s) (simp_all add: next_shape_visitVertex)

lemma shape_popStartVertex:
  "kind (fst (popStartVertex fp64 (n, nl, ni, sv))) = kind n \<and>
   length (cells (fst (popStartVertex fp64 (n, nl, ni, sv)))) = length (cells n)"
  by (cases sv) (auto simp: popStartVertex_def three_stores_Suc)

lemma updatePositions_next_shape:
  "kind (cache_nextPositions (updatePositions lowPart cache ps extruded fp64)) = kind (cache_nextPositions cache) \<and>
   length (cells (cache_nextPositions (updatePositions lowPart cache ps extruded fp64)))
     = length (cells (cache_nextPositions cache))"
proof -
  let ?s0 = "(cache_positions cache, cache_positions64xyLow cache, cache_nextPositions cache,
              cache_nextPositions64xyLow cache, 0::nat, 0::nat, None :: start_vertex option)"
  let ?xs = "concat (map Polygon_forEachVertex ps)"
  obtain p pl n nl i ni sv where s: "fold (visitVertex lowPart extruded fp64) ?xs ?s0 = (p, pl, n, nl, i, ni, sv)"
    by (cases "fold (visitVertex lowPart extruded fp64) ?xs ?s0")
  have "next_shape (p, pl, n, nl, i, ni, sv) = next_shape ?s0"
    using next_shape_fold[of lowPart extruded fp64 ?xs ?s0] by (simp only: s)
  then have n: "kind n = kind (cache_nextPositions cache)"
    "length (cells n) = length (cells (cache_nextPositions cache))"
    by (simp_all add: next_shape_def)
  have "cache_nextPositions (updatePositions lowPart cache ps extruded fp64)
      = fst (popStartVertex fp64 (n, nl, ni, sv))"
    by (auto simp: updatePositions_def traversal_flat s split: prod.splits)
  then show ?thesis using shape_popStartVertex[of fp64 n nl ni sv] n by simp
qed

lemma tesselator_nextPositions_shape:
  "\<exists>b. this_attributes (tesselator_updatePositions lowPart fp64 extruded t) ''nextPositions'' = Some b \<and>
       kind b = kind (buffer_or_new t ''nextPositions'') \<and>
       length (cells b) = length (cells (buffer_or_new t ''nextPositions''))"
  by (simp add: tesselator_updatePositions_def Let_def updatePositions_next_shape buffer_or_new_def)

lemma buffer_or_new_shape:
  "positions_cache_ok t \<Longrightarrow> key \<in> {''positions'', ''nextPositions''} \<Longrightarrow>
   kind (buffer_or_new t key) = Float32 \<and> length (cells (buffer_or_new t key)) = this_pointCount t * 3"
  by (auto simp: positions_cache_ok_def buffer_or_new_def ta_new_def split: option.splits)

lemma updatePositions_fields:
  "this_pointCount (tesselator_updatePositions lowPart fp64 extruded t) = this_pointCount t \<and>
   this_polygons (tesselator_updatePositions lowPart fp64 extruded t) = this_polygons t"
  by (simp add: tesselator_updatePositions_def Let_def)

lemma positions_cache_ok_updatePositions:
  assumes "positions_cache_ok t"
  shows "positions_cache_ok (tesselator_updatePositions lowPart fp64 extruded t)"
proof -
  have pc: "this_pointCount t = getPointCount (this_polygons t)"
    using assms by (simp add: positions_cache_ok_def)
  obtain b where b: "this_attributes (tesselator_updatePositions lowPart fp64 extruded t) ''nextPositions'' = Some b"
    "kind b = Float32" "length (cells b) = this_pointCount t * 3"
    using tesselator_nextPositions_shape[of lowPart fp64 extruded t]
      buffer_or_new_shape[OF assms, of "''nextPositions''"] by auto
  have a: "this_attributes (tesselator_updatePositions lowPart fp64 extruded t) ''positions''
      = Some (ta_write (buffer_or_new t ''positions'') 0
               (concat (map vertex_xyz (concat (concat (this_polygons t))))))"
    by (rule tesselator_positions)
  show ?thesis
    using pc a b buffer_or_new_shape[OF assms, of "''positions''"]
    by (simp add: positions_cache_ok_def updatePositions_fields)
qed

lemma positions_cache_ok_constructed:
  "PolygonTesselator raw IndexType = Inr t \<Longrightarrow> positions_cache_ok t"
  by (auto simp: PolygonTesselator_def Let_def positions_cache_ok_def split: if_splits)

lemma positions_cache_ok_step:
  assumes "default_keyed c" and "positions_cache_ok (fst s)"
  shows "positions_cache_ok (fst (step lowPart c s))"
proof (cases c)
  case (UpdatePositions fp64 extruded)
  then show ?thesis
    using assms(2) by (cases s) (simp add: positions_cache_ok_updatePositions)
next
  case (Elevations key getElevation)
  then show ?thesis
    using assms
    by (cases s) (auto simp: tesselator_elevations_def Let_def positions_cache_ok_def split: option.splits)
next
  case (Colors key getColor)
  then show ?thesis
    using assms
    by (cases s)
       (auto simp: tesselator_colors_def Let_def positions_cache_ok_def split: prod.splits option.splits)
qed (use assms(2) in \<open>cases s; simp\<close>)+

lemma positions_cache_ok_run:
  "list_all default_keyed calls \<Longrightarrow> positions_cache_ok (fst s) \<Longrightarrow>
   positions_cache_ok (fst (run lowPart calls s))"
  unfolding run_def
  by (induction calls arbitrary: s) (simp_all add: positions_cache_ok_step)

lemma positions_cache_ok_reachable:
  assumes "PolygonTesselator raw IndexType = Inr t" and "list_all default_keyed calls"
  shows "positions_cache_ok (fst (run lowPart calls (t, store)))"
  using positions_cache_ok_run[OF assms(2), of "(t, store)" lowPart]
    positions_cache_ok_constructed[OF assms(1)] by simp

lemma positions_cache_okD:
  assumes "positions_cache_ok t"
  shows "this_pointCount t = getPointCount (this_polygons t)"
    and "case this_attributes t ''positions'' of None \<Rightarrow> True
         | Some b \<Rightarrow> kind b = Float32 \<and> length (cells b) = this_pointCount t * 3"
    and "case this_attributes t ''nextPositions'' of None \<Rightarrow> True
         | Some b \<Rightarrow> kind b = Float32 \<and> length (cells b) = this_pointCount t * 3"
  using assms by (simp_all add: positions_cache_ok_def)


lemma positions_cells:
  assumes "positions_cache_ok t"
  shows "map_option cells (this_attributes (tesselator_updatePositions lowPart fp64 extruded t) ''positions'')
           = Some (map toFloat32 (concat (map vertex_xyz (concat (concat (this_polygons t))))))"
proof -
  have "length (concat (map vertex_xyz (concat (concat (this_polygons t))))) = this_pointCount t * 3"
    by (simp add: length_all_vertices positions_cache_okD(1)[OF assms])
  with positions_cache_okD(2)[OF assms]
  have "cells (ta_write (buffer_or_new t ''positions'') 0
                 (concat (map vertex_xyz (concat (concat (this_polygons t))))))
      = map toFloat32 (concat (map vertex_xyz (concat (concat (this_polygons t)))))"
    by (rule cells_fresh_or_cached)
  then show ?thesis by (simp add: tesselator_positions)
qed

lemma nextPositions_cells:
  assumes "positions_cache_ok t"
  shows "map_option cells (this_attributes (tesselator_updatePositions lowPart fp64 True t) ''nextPositions'')
           = Some (map toFloat32
                     (concat (map vertex_xyz (concat (map rotate1 (map concat (this_polygons t)))))))"
proof -
  have "length (concat (map rotate1 (map concat (this_polygons t))))
      = length (concat (map concat (this_polygons t)))"
    by (rule length_rotated)
  also have "\<dots> = length (concat (concat (this_polygons t)))"
    by (simp only: all_vertices)
  finally have "length (concat (map rotate1 (map concat (this_polygons t)))) = this_pointCount t"
    by (simp add: length_all_vertices positions_cache_okD(1)[OF assms])
  then have "length (concat (map vertex_xyz (concat (map rotate1 (map concat (this_polygons t))))))
      = this_pointCount t * 3"
    by (simp only: length_concat_xyz mult.commute)
  with positions_cache_okD(3)[OF assms]
  have "cells (ta_write (buffer_or_new t ''nextPositions'') 0
                 (concat (map vertex_xyz (concat (map rotate1 (map concat (this_polygons t)))))))
      = map toFloat32 (concat (map vertex_xyz (concat (map rotate1 (map concat (this_polygons t))))))"
    by (rule cells_fresh_or_cached)
  then show ?thesis by (simp add: tesselator_nextPositions)
qed

lemma nth_cells_xyz:
  assumes "a < length vs" and "c < 3"
  shows "map toFloat32 (concat (map vertex_xyz vs)) ! (3 * a + c) = toFloat32 (vertex_xyz (vs ! a) ! c)"
proof -
  have "3 * a + c < 3 * length vs" using assms by simp
  then show ?thesis using assms by (simp add: nth_concat_xyz)
qed

text \<open>
  C6, as amended. After \<open>updatePositions\<close> the position buffer has length
  \<open>pointCount * 3\<close> and holds, for each polygon in collection order, for each of its
  rings in order (outer ring first, then holes), for each vertex in ring order, the
  triple \<open>(x, y, z)\<close>, each coordinate rounded to single precision by the store into the
  \<open>Float32Array\<close>, with 0 for \<open>z\<close> when the vertex has no third coordinate; for the
  single triangle \<open>[[0,0],[1,0],[0,1]]\<close> the buffer is \<open>[0,0,0, 1,0,0, 0,1,0]\<close>.
  Vertices are points of two or three numbers; the tesselator is one whose cached
  position buffers are those this method allocates, as they are after construction and
  after any calls that leave the attribute names to their defaults
  (\<open>positions_cache_ok_reachable\<close>).
\<close>

theorem positions_layout:
  "(positions_cache_ok t \<and>
    (\<forall>v\<in>set (concat (concat (this_polygons t))).
       (length v = 2 \<or> length v = 3) \<and> list_all (\<lambda>c. \<not> isNaN c) v) \<longrightarrow>
    (\<exists>b. this_attributes (tesselator_updatePositions lowPart fp64 extruded t) ''positions'' = Some b \<and>
         length (cells b) = this_pointCount t * 3 \<and>
         cells b = concat (map (\<lambda>v. [toFloat32 (v ! 0), toFloat32 (v ! 1),
                                      if length v = 2 then Number 0 else toFloat32 (v ! 2)])
                               (concat (concat (this_polygons t)))))) \<and>
   (PolygonTesselator [SimpleRing [[Number 0, Number 0], [Number 1, Number 0], [Number 0, Number 1]]] IndexType
      = Inr t0 \<longrightarrow>
    this_pointCount t0 = 3 \<and>
    map_option cells (this_attributes (tesselator_updatePositions lowPart fp64 extruded t0) ''positions'')
      = Some [Number 0, Number 0, Number 0, Number 1, Number 0, Number 0, Number 0, Number 1, Number 0])"
proof -
  have general: "\<exists>b. this_attributes (tesselator_updatePositions lowPart fp64 extruded t) ''positions'' = Some b \<and>
         length (cells b) = this_pointCount t * 3 \<and>
         cells b = concat (map (\<lambda>v. [toFloat32 (v ! 0), toFloat32 (v ! 1),
                                      if length v = 2 then Number 0 else toFloat32 (v ! 2)])
                               (concat (concat (this_polygons t))))"
    if ok: "positions_cache_ok t"
      and wf: "\<forall>v\<in>set (concat (concat (this_polygons t))).
                 (length v = 2 \<or> length v = 3) \<and> list_all (\<lambda>c. \<not> isNaN c) v"
    for t :: tesselator
  proof -
    let ?vs = "concat (concat (this_polygons t))"
    let ?b = "ta_write (buffer_or_new t ''positions'') 0 (concat (map vertex_xyz ?vs))"
    note pc = positions_cache_okD(1)[OF ok] and cache = positions_cache_okD(2)[OF ok]
    have len: "length (concat (map vertex_xyz ?vs)) = this_pointCount t * 3"
      by (simp add: length_all_vertices pc)
    have cells: "cells ?b = map toFloat32 (concat (map vertex_xyz ?vs))"
      using cache len by (rule cells_fresh_or_cached)
    have "map toFloat32 (concat (map vertex_xyz ?vs))
        = concat (map (\<lambda>v. map toFloat32 (vertex_xyz v)) ?vs)"
      by (simp add: map_concat comp_def)
    also have "\<dots> = concat (map (\<lambda>v. [toFloat32 (v ! 0), toFloat32 (v ! 1),
                                        if length v = 2 then Number 0 else toFloat32 (v ! 2)]) ?vs)"
    proof (intro arg_cong[where f = concat] map_cong refl)
      fix v assume "v \<in> set ?vs"
      with wf have "(length v = 2 \<or> length v = 3) \<and> list_all (\<lambda>c. \<not> isNaN c) v" by (rule bspec)
      then show "map toFloat32 (vertex_xyz v)
          = [toFloat32 (v ! 0), toFloat32 (v ! 1), if length v = 2 then Number 0 else toFloat32 (v ! 2)]"
        by (intro vertex_xyz_numeric) simp_all
    qed
    finally have contents: "cells ?b
        = concat (map (\<lambda>v. [toFloat32 (v ! 0), toFloat32 (v ! 1),
                             if length v = 2 then Number 0 else toFloat32 (v ! 2)]) ?vs)"
      by (simp only: cells)
    have "length (cells ?b) = this_pointCount t * 3"
      by (simp only: cells length_map len)
    then show ?thesis using contents tesselator_positions[of lowPart fp64 extruded t] by blast
  qed
  have example: "this_pointCount t0 = 3 \<and>
      map_option cells (this_attributes (tesselator_updatePositions lowPart fp64 extruded t0) ''positions'')
      = Some [Number 0, Number 0, Number 0, Number 1, Number 0, Number 0, Number 0, Number 1, Number 0]"
    if c: "PolygonTesselator [SimpleRing [[Number 0, Number 0], [Number 1, Number 0], [Number 0, Number 1]]] IndexType
      = Inr t0"
  proof -
    have f: "this_polygons t0 = [[[[Number 0, Number 0], [Number 1, Number 0], [Number 0, Number 1]]]]"
      using c by (auto simp: PolygonTesselator_def Let_def split: if_splits)
    have n: "this_pointCount t0 = 3"
      using c
      by (auto simp: PolygonTesselator_def Let_def getPointCount_eq Polygon_getVertexCount_def
            split: if_splits)
    have "\<exists>b. this_attributes (tesselator_updatePositions lowPart fp64 extruded t0) ''positions'' = Some b \<and>
         length (cells b) = this_pointCount t0 * 3 \<and>
         cells b = concat (map (\<lambda>v. [toFloat32 (v ! 0), toFloat32 (v ! 1),
                                      if length v = 2 then Number 0 else toFloat32 (v ! 2)])
                               (concat (concat (this_polygons t0))))"
      using positions_cache_ok_constructed[OF c] by (rule general) (simp add: f isNaN_def)
    then show ?thesis using n by (auto simp: f toFloat32_examples)
  qed
  show ?thesis using general example by blast
qed

theorem positions_layout_witness:
  "\<exists>b. this_attributes (tesselator_updatePositions id False False example_tesselator) ''positions'' = Some b \<and>
       length (cells b) = 21 \<and>
       cells b = [Number 1, Number 1, Number 0, Number 5, Number 1, Number 0, Number 5, Number 5, Number 0,
                  Number 1, Number 5, Number 0,
                  Number 2, Number 2, Number 0, Number 3, Number 2, Number 0, Number 2, Number 3, Number 0]"
proof -
  have ok: "positions_cache_ok example_tesselator"
    using example_tesselator_constructed by (rule positions_cache_ok_constructed)
  have wf: "\<forall>v\<in>set (concat (concat (this_polygons example_tesselator))).
              (length v = 2 \<or> length v = 3) \<and> list_all (\<lambda>c. \<not> isNaN c) v"
    by (simp add: example_tesselator_def example_outer_def example_hole_def isNaN_def)
  show ?thesis
    using positions_layout[of example_tesselator id False False, THEN conjunct1] ok wf
    by (simp add: example_tesselator_def example_outer_def example_hole_def toFloat32_examples)
qed

text \<open>
  C6 as stated fails: a coordinate that is not a single-precision number is not in the
  buffer. The triangle \<open>[[16777217, 0], [1, 0], [0, 1]]\<close> has the \<open>x\<close> of its first
  vertex, \<open>2 ^ 24 + 1\<close>, stored as \<open>16777216\<close>.
\<close>

theorem positions_layout_counterexample:
  "PolygonTesselator [SimpleRing example_wide] None = Inr example_wide_tesselator \<and>
   example_wide ! 0 = [Number 16777217, Number 0] \<and>
   map_option cells
     (this_attributes (tesselator_updatePositions id False False example_wide_tesselator) ''positions'')
     = Some [Number 16777216, Number 0, Number 0,
             Number 1, Number 0, Number 0, Number 0, Number 1, Number 0] \<and>
   map_option cells
     (this_attributes (tesselator_updatePositions id False False example_wide_tesselator) ''positions'')
     \<noteq> Some [Number 16777217, Number 0, Number 0,
             Number 1, Number 0, Number 0, Number 0, Number 1, Number 0]"
proof -
  have ok: "positions_cache_ok example_wide_tesselator"
    using example_wide_tesselator_constructed by (rule positions_cache_ok_constructed)
  have cells: "map_option cells
     (this_attributes (tesselator_updatePositions id False False example_wide_tesselator) ''positions'')
     = Some [Number 16777216, Number 0, Number 0,
             Number 1, Number 0, Number 0, Number 0, Number 1, Number 0]"
    unfolding positions_cells[OF ok]
    by (simp add: example_wide_tesselator_def example_wide_def vertex_xyz_def
          js_get_def js_or_def falsy_def toFloat32_examples toFloat32_wide)
  show ?thesis
    using example_wide_tesselator_constructed
    by (simp add: cells example_wide_def)
qed




end
